theory Spec2Isabelle
  imports Main "HOL-Library.Word"
begin

section \<open>libqb tsafe.c: the thread-safety guard\<close>

text \<open>
  The file \<^verbatim>\<open>src/lib/tsafe.c\<close> interposes on libc functions that are not thread safe.
  Each wrapper looks at two process-wide flags and either forwards to the real
  function, found through the dynamic loader and kept in a static pointer, or
  fails \<^verbatim>\<open>assert(0)\<close>.

  The model is sequential: one thread of one process. Everything a call does beyond
  returning a value is written into the process state, and the effects whose order or
  number matter (taking and releasing the lock, reading and writing
  \<^verbatim>\<open>tsafe_disabled\<close>, resolving a symbol, calling through a resolved pointer, failing the
  assertion) are also appended to a trace kept in the state.

  Assumptions of the model, none of them in the C text:
  \<^item> \<^verbatim>\<open>assert\<close> is compiled in (no \<^verbatim>\<open>NDEBUG\<close>), so \<^verbatim>\<open>assert(0)\<close> ends the process;
  \<^item> \<^verbatim>\<open>malloc\<close> and \<^verbatim>\<open>strdup\<close> succeed, and the environment vector has fewer entries
    than the \<^verbatim>\<open>int32_t\<close> counters of \<^verbatim>\<open>qb_tsafe_init\<close> and \<^verbatim>\<open>getenv\<close> can count, so the
    counters are natural numbers;
  \<^item> a C string is the list of its bytes before the terminator;
  \<^item> a real implementation returns, and touches nothing of this file's state;
  \<^item> every feature macro (\<^verbatim>\<open>HAVE_CRYPT\<close>, \<^verbatim>\<open>HAVE_ENCRYPT\<close>, ...) is defined, so every
    wrapper of the file is part of the build; \<^verbatim>\<open>QB_BSD\<close> and
    \<^verbatim>\<open>HAVE_PTHREAD_SPIN_LOCK\<close> are fields of the build configuration.
\<close>

subsection \<open>Values, events, configuration and process state\<close>

text \<open>
  The arguments and results that cross the wrappers. \<open>Env_ptr entry off\<close> is a pointer
  into the snapshot \<^verbatim>\<open>coro_environ\<close>: \<open>off\<close> bytes into entry number \<open>entry\<close>.
\<close>

datatype cval = Void | Null | Num int | Str string | Obj nat | Env_ptr nat nat

datatype event =
    Lock
  | Unlock
  | Read_flag
  | Write_flag "32 word"
  | Resolve string
  | Call_real string "cval list"
  | Null_call string
  | Assert_failed

text \<open>
  A real implementation takes the argument list and the state of the world outside this
  file (the real environment, the password database, ...) and returns a result and the
  new world. A function pointer is \<open>None\<close> for \<^verbatim>\<open>NULL\<close>. In the configuration,
  \<open>dlsym_next n\<close> is \<^verbatim>\<open>dlsym(RTLD_NEXT, n)\<close> and \<open>dlsym_libc n\<close> is
  \<^verbatim>\<open>dlsym(dlopen("/usr/lib/libc.so", RTLD_LAZY), n)\<close>.
\<close>

type_synonym 'w real_fn = "cval list \<Rightarrow> 'w \<Rightarrow> cval \<times> 'w"

record 'w config =
  qb_bsd :: bool
  have_pthread_spin_lock :: bool
  dlsym_next :: "string \<Rightarrow> 'w real_fn option"
  dlsym_libc :: "string \<Rightarrow> 'w real_fn option"

text \<open>
  The statics of the file. \<open>real_ptr name\<close> is the static pointer
  \<^verbatim>\<open>real_<name>\<close> inside the wrapper of \<open>name\<close>; \<open>atfork_handlers\<close> counts the
  registrations made with \<^verbatim>\<open>pthread_atfork\<close>.
\<close>

record 'w proc =
  tsafe_disabled :: "32 word"
  tsafe_inited :: "32 word"
  coro_environ :: "string list option"
  mutex_held :: bool
  atfork_handlers :: nat
  real_ptr :: "string \<Rightarrow> 'w real_fn option"
  world :: 'w
  trace :: "event list"

text \<open>
  How a call ends: it returns a value, it fails the assertion, it runs into undefined
  behaviour (a call through a null pointer, arithmetic on a null pointer), or it
  waits for the lock for ever.
\<close>

datatype 'w outcome =
    Returns cval "'w proc"
  | Aborts "'w proc"
  | Faults "'w proc"
  | Blocks "'w proc"

fun state_of :: "'w outcome \<Rightarrow> 'w proc" where
  "state_of (Returns v s) = s"
| "state_of (Aborts s) = s"
| "state_of (Faults s) = s"
| "state_of (Blocks s) = s"

fun andthen :: "'w outcome \<Rightarrow> ('w proc \<Rightarrow> 'w outcome) \<Rightarrow> 'w outcome" where
  "andthen (Returns v s) k = k s"
| "andthen (Aborts s) k = Aborts s"
| "andthen (Faults s) k = Faults s"
| "andthen (Blocks s) k = Blocks s"

definition log :: "event \<Rightarrow> 'w proc \<Rightarrow> 'w proc" where
  "log e st = st\<lparr>trace := trace st @ [e]\<rparr>"

text \<open>The events a call added to the trace of the state it started from.\<close>

definition emitted :: "'w proc \<Rightarrow> 'w outcome \<Rightarrow> event list" where
  "emitted st out = drop (length (trace st)) (trace (state_of out))"

text \<open>The statics as the loader leaves them: \<^verbatim>\<open>tsafe_disabled = 1\<close>, the rest zero.\<close>

definition boot :: "'w \<Rightarrow> 'w proc" where
  "boot w = \<lparr>tsafe_disabled = 1, tsafe_inited = 0, coro_environ = None,
     mutex_held = False, atfork_handlers = 0, real_ptr = (\<lambda>n. None),
     world = w, trace = []\<rparr>"

subsection \<open>Initialisation, the lock and the gate\<close>

text \<open>
  \<^verbatim>\<open>qb_tsafe_init\<close>: both loops copy the vector entry by entry up to its terminator, so the
  snapshot is the list itself.
\<close>

definition qb_tsafe_init :: "'w config \<Rightarrow> string list \<Rightarrow> 'w proc \<Rightarrow> 'w outcome" where
  "qb_tsafe_init cfg envp st =
     (let s1 = st\<lparr>coro_environ := Some envp\<rparr>;
          s2 = (if have_pthread_spin_lock cfg then s1\<lparr>mutex_held := False\<rparr> else s1);
          s3 = s2\<lparr>atfork_handlers := Suc (atfork_handlers s2)\<rparr>;
          s4 = log (Write_flag 1) (s3\<lparr>tsafe_disabled := 1\<rparr>)
      in Returns Void (s4\<lparr>tsafe_inited := 1\<rparr>))"

definition tsafe_lock :: "'w proc \<Rightarrow> 'w outcome" where
  "tsafe_lock st =
     (if mutex_held st then Blocks st
      else Returns Void (log Lock (st\<lparr>mutex_held := True\<rparr>)))"

definition tsafe_unlock :: "'w proc \<Rightarrow> 'w outcome" where
  "tsafe_unlock st = Returns Void (log Unlock (st\<lparr>mutex_held := False\<rparr>))"

definition qb_tsafe_off :: "'w proc \<Rightarrow> 'w outcome" where
  "qb_tsafe_off st =
     andthen (tsafe_lock st)
       (\<lambda>s. tsafe_unlock (log (Write_flag 1) (s\<lparr>tsafe_disabled := 1\<rparr>)))"

definition qb_tsafe_on :: "'w proc \<Rightarrow> 'w outcome" where
  "qb_tsafe_on st =
     andthen (tsafe_lock st)
       (\<lambda>s. tsafe_unlock (log (Write_flag 0) (s\<lparr>tsafe_disabled := 0\<rparr>)))"

definition atfork_prepare :: "'w proc \<Rightarrow> 'w outcome" where
  "atfork_prepare st = tsafe_lock st"

definition atfork_parent :: "'w proc \<Rightarrow> 'w outcome" where
  "atfork_parent st = tsafe_unlock st"

text \<open>
  \<^verbatim>\<open>if (tsafe_inited && !tsafe_disabled)\<close>: the second flag is read only when the first is
  set.
\<close>

definition atfork_child :: "'w proc \<Rightarrow> 'w outcome" where
  "atfork_child st =
     (if tsafe_inited st \<noteq> 0 then
        (let s1 = log Read_flag st in
         if tsafe_disabled s1 = 0
         then tsafe_unlock (log (Write_flag 1) (s1\<lparr>tsafe_disabled := 1\<rparr>))
         else tsafe_unlock s1)
      else tsafe_unlock st)"

text \<open>
  The test \<^verbatim>\<open>!tsafe_inited || tsafe_disabled\<close> at the top of \<^verbatim>\<open>getenv\<close> and of every banned
  wrapper, with the state after its reads.
\<close>

definition gate_off :: "'w proc \<Rightarrow> bool \<times> 'w proc" where
  "gate_off st =
     (if tsafe_inited st = 0 then (True, st)
      else (tsafe_disabled st \<noteq> 0, log Read_flag st))"

text \<open>The gate is enabled in the states where that test is false.\<close>

definition gate_enabled :: "'w proc \<Rightarrow> bool" where
  "gate_enabled st = (tsafe_inited st \<noteq> 0 \<and> tsafe_disabled st = 0)"

subsection \<open>Resolving and calling the real implementation\<close>

definition get_real_func :: "'w config \<Rightarrow> string \<Rightarrow> 'w proc \<Rightarrow> 'w real_fn option \<times> 'w proc" where
  "get_real_func cfg func_name st =
     ((if qb_bsd cfg then dlsym_libc cfg func_name else dlsym_next cfg func_name),
      log (Resolve func_name) st)"

text \<open>\<^verbatim>\<open>if (real_f == NULL) { real_f = _get_real_func_("f"); }\<close>\<close>

definition resolve_once :: "'w config \<Rightarrow> string \<Rightarrow> 'w proc \<Rightarrow> 'w proc" where
  "resolve_once cfg name st =
     (case real_ptr st name of
        None \<Rightarrow>
          (case get_real_func cfg name st of
             (p, s1) \<Rightarrow> s1\<lparr>real_ptr := (real_ptr s1)(name := p)\<rparr>)
      | Some f \<Rightarrow> st)"

text \<open>\<^verbatim>\<open>real_f(args)\<close>: the call through the static pointer.\<close>

definition call_real :: "string \<Rightarrow> cval list \<Rightarrow> 'w proc \<Rightarrow> 'w outcome" where
  "call_real name args st =
     (case real_ptr st name of
        None \<Rightarrow> Faults (log (Null_call name) st)
      | Some f \<Rightarrow>
          (case f args (world st) of
             (r, w') \<Rightarrow> Returns r (log (Call_real name args) (st\<lparr>world := w'\<rparr>))))"

subsection \<open>The thread-spawn trigger\<close>

text \<open>
  \<^verbatim>\<open>pthread_create\<close> (built under \<^verbatim>\<open>QB_LINUX\<close>). The test is
  \<^verbatim>\<open>tsafe_inited && tsafe_disabled\<close>.
\<close>

definition pthread_create :: "'w config \<Rightarrow> cval list \<Rightarrow> 'w proc \<Rightarrow> 'w outcome" where
  "pthread_create cfg args st =
     andthen
       (if tsafe_inited st \<noteq> 0 then
          (let s1 = log Read_flag st in
           if tsafe_disabled s1 \<noteq> 0 then qb_tsafe_on s1 else Returns Void s1)
        else Returns Void st)
       (\<lambda>s. call_real ''pthread_create'' args (resolve_once cfg ''pthread_create'' s))"

subsection \<open>The snapshot-served lookup\<close>

text \<open>\<^verbatim>\<open>strchr\<close>: the offset of the first occurrence, \<open>None\<close> for a null result.\<close>

fun strchr :: "string \<Rightarrow> char \<Rightarrow> nat option" where
  "strchr [] c = None"
| "strchr (x # xs) c = (if x = c then Some 0 else map_option Suc (strchr xs c))"

text \<open>\<^verbatim>\<open>strncmp\<close>: only the sign of the result is specified.\<close>

fun strncmp :: "string \<Rightarrow> string \<Rightarrow> nat \<Rightarrow> int" where
  "strncmp a b 0 = 0"
| "strncmp [] [] (Suc n) = 0"
| "strncmp [] (y # ys) (Suc n) = - 1"
| "strncmp (x # xs) [] (Suc n) = 1"
| "strncmp (x # xs) (y # ys) (Suc n) =
     (if x = y then strncmp xs ys n
      else if (of_char x :: nat) < of_char y then - 1 else 1)"

datatype scan = Found nat | Not_found | Bad_entry

text \<open>
  The \<^verbatim>\<open>for\<close> loop of \<^verbatim>\<open>getenv\<close> over the entries from index \<open>entry\<close> on. An entry
  without \<^verbatim>\<open>'='\<close> makes \<^verbatim>\<open>eq\<close> null and \<^verbatim>\<open>eq - coro_environ[entry]\<close> undefined.
\<close>

fun scan_environ :: "string \<Rightarrow> string list \<Rightarrow> nat \<Rightarrow> scan" where
  "scan_environ name [] entry = Not_found"
| "scan_environ name (e # es) entry =
     (case strchr e CHR ''='' of
        None \<Rightarrow> Bad_entry
      | Some name_len \<Rightarrow>
          if name_len = length name \<and> strncmp name e name_len = 0
          then Found entry
          else scan_environ name es (Suc entry))"

definition getenv :: "'w config \<Rightarrow> string \<Rightarrow> 'w proc \<Rightarrow> 'w outcome" where
  "getenv cfg name st =
     (case gate_off st of
        (off, s1) \<Rightarrow>
          if off then call_real ''getenv'' [Str name] (resolve_once cfg ''getenv'' s1)
          else
            (case coro_environ s1 of
               None \<Rightarrow> Faults s1
             | Some env \<Rightarrow>
                 (case scan_environ name env 0 of
                    Bad_entry \<Rightarrow> Faults s1
                  | Not_found \<Rightarrow> Returns Null s1
                  | Found entry \<Rightarrow>
                      (case strchr (env ! entry) CHR ''='' of
                         None \<Rightarrow> Faults s1
                       | Some eq \<Rightarrow> Returns (Env_ptr entry (eq + 1)) s1))))"

text \<open>What a pointer returned by \<^verbatim>\<open>getenv\<close> points at: the rest of the snapshot entry.\<close>

fun deref :: "'w proc \<Rightarrow> cval \<Rightarrow> string option" where
  "deref st (Env_ptr entry off) =
     (case coro_environ st of
        None \<Rightarrow> None
      | Some env \<Rightarrow> if entry < length env then Some (drop off (env ! entry)) else None)"
| "deref st v = None"

subsection \<open>The banned functions\<close>

text \<open>
  The body shared by the banned wrappers:
  \<^verbatim>\<open>if (!tsafe_inited || tsafe_disabled) { if (real_f == NULL) { real_f = _get_real_func_("f"); } return real_f(args); } assert(0);\<close>
\<close>

definition forward_or_abort :: "'w config \<Rightarrow> string \<Rightarrow> cval list \<Rightarrow> 'w proc \<Rightarrow> 'w outcome" where
  "forward_or_abort cfg name args st =
     (case gate_off st of
        (off, s1) \<Rightarrow>
          if off then call_real name args (resolve_once cfg name s1)
          else Aborts (log Assert_failed s1))"

definition setenv :: "'w config \<Rightarrow> cval \<Rightarrow> cval \<Rightarrow> cval \<Rightarrow> 'w proc \<Rightarrow> 'w outcome" where
  "setenv cfg name val overwrite st = forward_or_abort cfg ''setenv'' [name, val, overwrite] st"

definition unsetenv :: "'w config \<Rightarrow> cval \<Rightarrow> 'w proc \<Rightarrow> 'w outcome" where
  "unsetenv cfg name st = forward_or_abort cfg ''unsetenv'' [name] st"

definition putenv :: "'w config \<Rightarrow> cval \<Rightarrow> 'w proc \<Rightarrow> 'w outcome" where
  "putenv cfg str st = forward_or_abort cfg ''putenv'' [str] st"

definition asctime :: "'w config \<Rightarrow> cval \<Rightarrow> 'w proc \<Rightarrow> 'w outcome" where
  "asctime cfg tm st = forward_or_abort cfg ''asctime'' [tm] st"

definition strtok :: "'w config \<Rightarrow> cval \<Rightarrow> cval \<Rightarrow> 'w proc \<Rightarrow> 'w outcome" where
  "strtok cfg str delim st = forward_or_abort cfg ''strtok'' [str, delim] st"

text \<open>
  \<^verbatim>\<open>crypt(key, salt)\<close> calls \<^verbatim>\<open>real_crypt(salt)\<close>, although \<^verbatim>\<open>real_crypt\<close> is declared
  with the two parameters of \<^verbatim>\<open>crypt\<close>. The model passes the one argument that the call
  names.
\<close>

definition crypt :: "'w config \<Rightarrow> cval \<Rightarrow> cval \<Rightarrow> 'w proc \<Rightarrow> 'w outcome" where
  "crypt cfg key salt st =
     (case gate_off st of
        (off, s1) \<Rightarrow>
          if off then call_real ''crypt'' [salt] (resolve_once cfg ''crypt'' s1)
          else Aborts (log Assert_failed s1))"

text \<open>
  \<^verbatim>\<open>setgrent\<close>: under \<^verbatim>\<open>QB_BSD\<close> the common body; otherwise the call to
  \<^verbatim>\<open>real_setgrent()\<close> is not returned from, and \<^verbatim>\<open>assert(0)\<close> follows it.
\<close>

definition setgrent :: "'w config \<Rightarrow> 'w proc \<Rightarrow> 'w outcome" where
  "setgrent cfg st =
     (if qb_bsd cfg then forward_or_abort cfg ''setgrent'' [] st
      else
        andthen
          (case gate_off st of
             (off, s1) \<Rightarrow>
               if off then call_real ''setgrent'' [] (resolve_once cfg ''setgrent'' s1)
               else Returns Void s1)
          (\<lambda>s. Aborts (log Assert_failed s)))"

text \<open>\<^verbatim>\<open>catgets\<close> returns \<^verbatim>\<open>NULL\<close> and looks at nothing.\<close>

definition catgets :: "cval \<Rightarrow> cval \<Rightarrow> cval \<Rightarrow> cval \<Rightarrow> 'w proc \<Rightarrow> 'w outcome" where
  "catgets catalog set_number message_number message st = Returns Null st"

text \<open>
  The banned functions of the file, each with the number of its parameters, in the
  order of the file.
\<close>

definition banned :: "(string \<times> nat) list" where
  "banned =
    [(''setenv'', 3), (''unsetenv'', 1), (''putenv'', 1), (''asctime'', 1),
     (''basename'', 1), (''crypt'', 2), (''ctermid'', 1), (''ctime'', 1),
     (''dirname'', 1), (''drand48'', 0), (''encrypt'', 2), (''endgrent'', 0),
     (''endpwent'', 0), (''getdate'', 1), (''getgrent'', 0), (''getgrgid'', 1),
     (''getgrnam'', 1), (''gethostent'', 0), (''getlogin'', 0), (''getnetbyaddr'', 2),
     (''getnetbyname'', 1), (''getnetent'', 0), (''getprotobyname'', 1),
     (''getprotobynumber'', 1), (''getprotoent'', 0), (''getpwent'', 0),
     (''getpwnam'', 1), (''getpwuid'', 1), (''getservent'', 0), (''getservbyname'', 2),
     (''getservbyport'', 2), (''getutxent'', 0), (''getutxid'', 1), (''getutxline'', 1),
     (''gmtime'', 1), (''hcreate'', 1), (''hsearch'', 2), (''hdestroy'', 0),
     (''inet_ntoa'', 1), (''l64a'', 1), (''lgamma'', 1), (''lgammaf'', 1),
     (''lgammal'', 1), (''localeconv'', 0), (''localtime'', 1), (''lrand48'', 0),
     (''mrand48'', 0), (''pututxline'', 1), (''rand'', 0), (''readdir'', 1),
     (''setgrent'', 0), (''setkey'', 1), (''setpwent'', 0), (''setutxent'', 0),
     (''strerror'', 1), (''strsignal'', 1), (''strtok'', 2), (''system'', 1),
     (''tmpnam'', 1), (''ttyname'', 1)]"

text \<open>
  A call of the banned function \<open>name\<close> with the arguments \<open>args\<close>. Every wrapper but
  \<^verbatim>\<open>crypt\<close> and \<^verbatim>\<open>setgrent\<close> is the common body at its own name and arguments. The
  C compiler admits a call only with as many arguments as \<open>banned\<close> lists.
\<close>

definition banned_call :: "'w config \<Rightarrow> string \<Rightarrow> cval list \<Rightarrow> 'w proc \<Rightarrow> 'w outcome" where
  "banned_call cfg name args st =
     (if name = ''crypt'' \<and> length args = 2 then crypt cfg (args ! 0) (args ! 1) st
      else if name = ''setgrent'' then setgrent cfg st
      else forward_or_abort cfg name args st)"

definition well_formed :: "string \<Rightarrow> cval list \<Rightarrow> bool" where
  "well_formed name args = ((name, length args) \<in> set banned)"

subsection \<open>Sequences of calls\<close>

text \<open>
  The platform's \<^verbatim>\<open>fork\<close>, which this file does not define, runs the handlers
  registered with \<^verbatim>\<open>pthread_atfork\<close>: every prepare handler, then every parent handler
  in the parent and every child handler in the child, which starts as a copy of the
  parent. \<open>fork_parent\<close> follows the parent, \<open>fork_child\<close> the child.
\<close>

fun repeat :: "nat \<Rightarrow> ('w proc \<Rightarrow> 'w outcome) \<Rightarrow> 'w proc \<Rightarrow> 'w outcome" where
  "repeat 0 f st = Returns Void st"
| "repeat (Suc n) f st = andthen (f st) (repeat n f)"

definition fork_parent :: "'w proc \<Rightarrow> 'w outcome" where
  "fork_parent st =
     andthen (repeat (atfork_handlers st) atfork_prepare st)
       (repeat (atfork_handlers st) atfork_parent)"

definition fork_child :: "'w proc \<Rightarrow> 'w outcome" where
  "fork_child st =
     andthen (repeat (atfork_handlers st) atfork_prepare st)
       (repeat (atfork_handlers st) atfork_child)"

text \<open>
  What the application can do to the process: call an entry point of the file, fork,
  or change the world behind the file's back (\<open>External\<close>, for instance a write to
  \<^verbatim>\<open>environ\<close>).
\<close>

datatype 'w call =
    Call_tsafe_init "string list"
  | Call_tsafe_on
  | Call_tsafe_off
  | Call_pthread_create "cval list"
  | Call_getenv string
  | Call_catgets cval cval cval cval
  | Call_banned string "cval list"
  | Fork_parent
  | Fork_child
  | External "'w \<Rightarrow> 'w"

fun step :: "'w config \<Rightarrow> 'w call \<Rightarrow> 'w proc \<Rightarrow> 'w outcome" where
  "step cfg (Call_tsafe_init envp) st = qb_tsafe_init cfg envp st"
| "step cfg Call_tsafe_on st = qb_tsafe_on st"
| "step cfg Call_tsafe_off st = qb_tsafe_off st"
| "step cfg (Call_pthread_create args) st = pthread_create cfg args st"
| "step cfg (Call_getenv name) st = getenv cfg name st"
| "step cfg (Call_catgets c s m d) st = catgets c s m d st"
| "step cfg (Call_banned name args) st = banned_call cfg name args st"
| "step cfg Fork_parent st = fork_parent st"
| "step cfg Fork_child st = fork_child st"
| "step cfg (External g) st = Returns Void (st\<lparr>world := g (world st)\<rparr>)"

text \<open>A sequence of calls stops at the first one that does not return.\<close>

fun run :: "'w config \<Rightarrow> 'w call list \<Rightarrow> 'w proc \<Rightarrow> 'w outcome" where
  "run cfg [] st = Returns Void st"
| "run cfg (c # cs) st = andthen (step cfg c st) (run cfg cs)"

subsection \<open>A small platform to run the model on\<close>

text \<open>
  The world is the real environment, a list of strings. Every symbol resolves to a
  function that returns the number of its arguments and leaves the world alone, on a
  non-BSD build with a mutex.
\<close>

definition count_args :: "string list real_fn" where
  "count_args args w = (Num (int (length args)), w)"

definition linux_cfg :: "string list config" where
  "linux_cfg = \<lparr>qb_bsd = False, have_pthread_spin_lock = False,
     dlsym_next = (\<lambda>n. Some count_args), dlsym_libc = (\<lambda>n. None)\<rparr>"

text \<open>A platform on which no symbol resolves.\<close>

definition bare_cfg :: "string list config" where
  "bare_cfg = \<lparr>qb_bsd = False, have_pthread_spin_lock = False,
     dlsym_next = (\<lambda>n. None), dlsym_libc = (\<lambda>n. None)\<rparr>"

text \<open>A process as the loader leaves it, with an empty real environment.\<close>

definition fresh_proc :: "string list proc" where
  "fresh_proc = boot []"

text \<open>An initialised process with the gate enabled, and one with the gate disabled.\<close>

definition enabled_proc :: "string list proc" where
  "enabled_proc = \<lparr>tsafe_disabled = 0, tsafe_inited = 1,
     coro_environ = Some [''PATH=/bin'', ''HOME=/root''],
     mutex_held = False, atfork_handlers = 1, real_ptr = (\<lambda>n. None),
     world = [''PATH=/bin'', ''HOME=/root''], trace = []\<rparr>"

definition disabled_proc :: "string list proc" where
  "disabled_proc = \<lparr>tsafe_disabled = 1, tsafe_inited = 1,
     coro_environ = Some [''PATH=/bin'', ''HOME=/root''],
     mutex_held = False, atfork_handlers = 1, real_ptr = (\<lambda>n. None),
     world = [''PATH=/bin'', ''HOME=/root''], trace = []\<rparr>"

text \<open>
  The example of the specification: initialise with \<^verbatim>\<open>PATH=/bin\<close>, spawn a thread, then
  overwrite the real environment.
\<close>

definition example_calls :: "string list call list" where
  "example_calls =
     [Call_pthread_create [Obj 1, Null, Obj 2, Null], External (\<lambda>w. [''PATH=/sbin''])]"

definition example_proc :: "string list proc" where
  "example_proc =
     state_of (run linux_cfg example_calls
       (state_of (qb_tsafe_init linux_cfg [''PATH=/bin'', ''HOME=/root''] fresh_proc)))"

subsection \<open>The common body of a wrapper, step by step\<close>

text \<open>
  The wrappers take no lock around their own statements, so calls made by different
  threads of the process overlap. For that, the common body of the banned wrappers is
  cut at the points where it touches shared state: the test of the two flags
  (\<open>Guard\<close>), the test \<^verbatim>\<open>real_f == NULL\<close> (\<open>Test_ptr\<close>), the resolution with the store into
  the static pointer (\<open>Resolve_ptr\<close>), and the call through the pointer (\<open>Call_ptr\<close>).
  Each step is made of the same pieces as \<open>forward_or_abort\<close>.
\<close>

datatype pc = Guard | Test_ptr | Resolve_ptr | Call_ptr | Returned cval | Aborted | Faulted

fun wrapper_step :: "'w config \<Rightarrow> string \<Rightarrow> cval list \<Rightarrow> pc \<Rightarrow> 'w proc \<Rightarrow> pc \<times> 'w proc" where
  "wrapper_step cfg name args Guard st =
     (case gate_off st of
        (off, s1) \<Rightarrow> if off then (Test_ptr, s1) else (Aborted, log Assert_failed s1))"
| "wrapper_step cfg name args Test_ptr st =
     (if real_ptr st name = None then (Resolve_ptr, st) else (Call_ptr, st))"
| "wrapper_step cfg name args Resolve_ptr st =
     (case get_real_func cfg name st of
        (p, s1) \<Rightarrow> (Call_ptr, s1\<lparr>real_ptr := (real_ptr s1)(name := p)\<rparr>))"
| "wrapper_step cfg name args Call_ptr st =
     (case call_real name args st of
        Returns r s \<Rightarrow> (Returned r, s)
      | Aborts s \<Rightarrow> (Aborted, s)
      | Faults s \<Rightarrow> (Faulted, s)
      | Blocks s \<Rightarrow> (Call_ptr, s))"
| "wrapper_step cfg name args pc st = (pc, st)"

text \<open>
  A thread inside a call of the wrapper \<open>fn\<close>, and where it stands. A schedule names
  the thread that takes the next step; a failed assertion or a fault in one thread ends
  the process for all of them.
\<close>

record thread =
  fn :: string
  fn_args :: "cval list"
  at :: pc

definition first_call :: "string \<Rightarrow> cval list \<Rightarrow> thread" where
  "first_call name args = \<lparr>fn = name, fn_args = args, at = Guard\<rparr>"

definition process_ended :: "thread list \<Rightarrow> bool" where
  "process_ended ts = list_ex (\<lambda>t. at t = Aborted \<or> at t = Faulted) ts"

fun interleave :: "'w config \<Rightarrow> nat list \<Rightarrow> thread list \<Rightarrow> 'w proc \<Rightarrow> thread list \<times> 'w proc" where
  "interleave cfg [] ts st = (ts, st)"
| "interleave cfg (i # sched) ts st =
     (if i < length ts \<and> \<not> process_ended ts then
        (case wrapper_step cfg (fn (ts ! i)) (fn_args (ts ! i)) (at (ts ! i)) st of
           (pc', st') \<Rightarrow> interleave cfg sched (ts[i := (ts ! i)\<lparr>at := pc'\<rparr>]) st')
      else interleave cfg sched ts st)"

text \<open>How a call that has come to its end ended.\<close>

fun outcome_at :: "pc \<Rightarrow> 'w proc \<Rightarrow> 'w outcome option" where
  "outcome_at (Returned r) st = Some (Returns r st)"
| "outcome_at Aborted st = Some (Aborts st)"
| "outcome_at Faulted st = Some (Faults st)"
| "outcome_at pc st = None"



subsection \<open>Predicates on outcomes and traces\<close>








text \<open>
  The lock discipline on a list of events, read from left to right starting with the
  lock held or not: \<open>locked_accesses\<close> asks that every read and every write of
  \<^verbatim>\<open>tsafe_disabled\<close> happens between a \<open>Lock\<close> and the next \<open>Unlock\<close>,
  \<open>locked_writes\<close> asks it of the writes only.
\<close>

fun locked_accesses :: "bool \<Rightarrow> event list \<Rightarrow> bool" where
  "locked_accesses held [] = True"
| "locked_accesses held (Lock # es) = locked_accesses True es"
| "locked_accesses held (Unlock # es) = locked_accesses False es"
| "locked_accesses held (Read_flag # es) = (held \<and> locked_accesses held es)"
| "locked_accesses held (Write_flag v # es) = (held \<and> locked_accesses held es)"
| "locked_accesses held (e # es) = locked_accesses held es"

fun locked_writes :: "bool \<Rightarrow> event list \<Rightarrow> bool" where
  "locked_writes held [] = True"
| "locked_writes held (Lock # es) = locked_writes True es"
| "locked_writes held (Unlock # es) = locked_writes False es"
| "locked_writes held (Write_flag v # es) = (held \<and> locked_writes held es)"
| "locked_writes held (e # es) = locked_writes held es"

fun is_write :: "event \<Rightarrow> bool" where
  "is_write (Write_flag v) = True"
| "is_write e = False"

text \<open>A call through the static pointer of \<open>n\<close>, null or not.\<close>

fun is_call :: "string \<Rightarrow> event \<Rightarrow> bool" where
  "is_call n (Call_real m a) = (m = n)"
| "is_call n (Null_call m) = (m = n)"
| "is_call n e = False"

subsection \<open>The snapshot as the specification reads it\<close>

text \<open>
  These three definitions follow the words of the specification, not the code: an
  entry of the snapshot is \<^verbatim>\<open>NAME=VALUE\<close>, its name is the segment before the first
  \<^verbatim>\<open>'='\<close>, its value is what follows that \<^verbatim>\<open>'='\<close>, and the value captured for a name is
  the value of the first entry with that name.
\<close>

definition entry_name :: "string \<Rightarrow> string" where
  "entry_name e = takeWhile (\<lambda>c. c \<noteq> CHR ''='') e"

definition entry_value :: "string \<Rightarrow> string" where
  "entry_value e = drop (Suc (length (entry_name e))) e"

definition captured :: "string list \<Rightarrow> string \<Rightarrow> string option" where
  "captured envp name = map_of (map (\<lambda>e. (entry_name e, entry_value e)) envp) name"

fun is_init :: "'w call \<Rightarrow> bool" where
  "is_init (Call_tsafe_init envp) = True"
| "is_init c = False"

section \<open>Properties\<close>

subsection \<open>Basic facts\<close>

lemmas model_defs =
  qb_tsafe_init_def tsafe_lock_def tsafe_unlock_def qb_tsafe_on_def qb_tsafe_off_def
  atfork_prepare_def atfork_parent_def atfork_child_def gate_off_def gate_enabled_def
  get_real_func_def resolve_once_def call_real_def pthread_create_def getenv_def
  forward_or_abort_def crypt_def setgrent_def catgets_def banned_call_def
  fork_parent_def fork_child_def log_def Let_def boot_def

lemmas example_defs =
  linux_cfg_def bare_cfg_def count_args_def fresh_proc_def enabled_proc_def disabled_proc_def
  example_calls_def example_proc_def

lemma log_fields [simp]:
  "tsafe_disabled (log e st) = tsafe_disabled st"
  "tsafe_inited (log e st) = tsafe_inited st"
  "coro_environ (log e st) = coro_environ st"
  "mutex_held (log e st) = mutex_held st"
  "atfork_handlers (log e st) = atfork_handlers st"
  "real_ptr (log e st) = real_ptr st"
  "world (log e st) = world st"
  "trace (log e st) = trace st @ [e]"
  by (simp_all add: log_def)

lemma gate_off_enabled:
  "gate_enabled st \<Longrightarrow> gate_off st = (False, log Read_flag st)"
  by (simp add: gate_off_def gate_enabled_def log_def)

lemma gate_off_fst: "fst (gate_off st) = (\<not> gate_enabled st)"
  by (auto simp: gate_off_def gate_enabled_def log_def)

text \<open>The wrappers written out one by one above are instances of \<open>banned_call\<close>.\<close>

lemma named_wrappers:
  "setenv cfg name val overwrite st = banned_call cfg ''setenv'' [name, val, overwrite] st"
  "unsetenv cfg name st = banned_call cfg ''unsetenv'' [name] st"
  "putenv cfg str st = banned_call cfg ''putenv'' [str] st"
  "asctime cfg tm st = banned_call cfg ''asctime'' [tm] st"
  "strtok cfg str delim st = banned_call cfg ''strtok'' [str, delim] st"
  "crypt cfg key salt st = banned_call cfg ''crypt'' [key, salt] st"
  "setgrent cfg st = banned_call cfg ''setgrent'' [] st"
  by (simp_all add: banned_call_def setenv_def unsetenv_def putenv_def asctime_def
      strtok_def)

lemma well_formed_cases:
  "well_formed name args \<Longrightarrow> name = ''crypt'' \<Longrightarrow> length args = 2"
  by (auto simp: well_formed_def banned_def)

lemma well_formed_setgrent:
  "well_formed ''setgrent'' args \<Longrightarrow> args = []"
  by (auto simp: well_formed_def banned_def)

subsection \<open>C1: a banned call with the gate enabled\<close>

text \<open>
  C1. A call of any banned function, on either build, in a state where
  \<^verbatim>\<open>tsafe_inited\<close> is set and \<^verbatim>\<open>tsafe_disabled\<close> is zero, fails the assertion. The process
  state at the abort is the state before the call with two events added to its trace,
  the read of the flag and the failed assertion: the world is untouched, no static
  pointer was written, and nothing was resolved or called.
\<close>

theorem banned_call_aborts_when_enabled:
  assumes "well_formed name args" and "gate_enabled st"
  shows "banned_call cfg name args st =
           Aborts (st\<lparr>trace := trace st @ [Read_flag, Assert_failed]\<rparr>)"
  using assms
  by (simp add: banned_call_def crypt_def setgrent_def forward_or_abort_def
      gate_off_enabled log_def)

theorem banned_call_aborts_when_enabled_witness:
  "well_formed ''setenv'' [Str ''PATH'', Str ''/sbin'', Num 1] \<and> gate_enabled enabled_proc \<and>
   banned_call linux_cfg ''setenv'' [Str ''PATH'', Str ''/sbin'', Num 1] enabled_proc =
     Aborts (enabled_proc\<lparr>trace := [Read_flag, Assert_failed]\<rparr>)"
proof -
  have wf: "well_formed ''setenv'' [Str ''PATH'', Str ''/sbin'', Num 1]"
    by (simp add: well_formed_def banned_def)
  have en: "gate_enabled enabled_proc"
    by (simp add: gate_enabled_def enabled_proc_def)
  have "trace enabled_proc = []"
    by (simp add: enabled_proc_def)
  with banned_call_aborts_when_enabled [OF wf en, of linux_cfg] wf en
  show ?thesis by simp
qed

subsection \<open>C2: a banned call with the gate disabled; setgrent\<close>

text \<open>
  With the gate disabled, a banned wrapper other than the non-BSD \<^verbatim>\<open>setgrent\<close> never
  fails the assertion: it returns, or it faults on a null pointer when the symbol did
  not resolve.
\<close>

lemma gate_off_disabled:
  "\<not> gate_enabled st \<Longrightarrow> gate_off st = (True, snd (gate_off st))"
  by (auto simp: gate_off_def gate_enabled_def)

lemma forward_or_abort_disabled:
  assumes "\<not> gate_enabled st"
  shows "forward_or_abort cfg name args st =
           call_real name args (resolve_once cfg name (snd (gate_off st)))"
proof -
  obtain s1 where "gate_off st = (True, s1)"
    using gate_off_disabled [OF assms] by simp
  then show ?thesis by (simp add: forward_or_abort_def)
qed

lemma crypt_disabled:
  assumes "\<not> gate_enabled st"
  shows "crypt cfg k salt st =
           call_real ''crypt'' [salt] (resolve_once cfg ''crypt'' (snd (gate_off st)))"
proof -
  obtain s1 where "gate_off st = (True, s1)"
    using gate_off_disabled [OF assms] by simp
  then show ?thesis by (simp add: crypt_def)
qed

lemma call_real_no_abort: "call_real name args st \<noteq> Aborts s"
  by (simp add: call_real_def split: option.splits prod.splits)

lemma banned_call_disabled_no_abort:
  assumes "\<not> gate_enabled st" and "name \<noteq> ''setgrent'' \<or> qb_bsd cfg"
  shows "banned_call cfg name args st \<noteq> Aborts s"
proof -
  have "crypt cfg k salt st \<noteq> Aborts s" for k salt
    using assms(1) by (simp add: crypt_disabled call_real_no_abort)
  moreover have "forward_or_abort cfg n a st \<noteq> Aborts s" for n a
    using assms(1) by (simp add: forward_or_abort_disabled call_real_no_abort)
  ultimately show ?thesis
    using assms(2) by (auto simp: banned_call_def setgrent_def)
qed

text \<open>
  C2. The claim covers the non-BSD \<^verbatim>\<open>setgrent\<close>, and there it fails. In a process
  that never called \<^verbatim>\<open>qb_tsafe_init\<close> (the gate is disabled), on a non-BSD build,
  \<^verbatim>\<open>setgrent()\<close> resolves and calls the real function and then fails the assertion.
\<close>

theorem setgrent_aborts_when_disabled:
  "\<not> gate_enabled fresh_proc \<and> \<not> qb_bsd linux_cfg \<and> well_formed ''setgrent'' [] \<and>
   banned_call linux_cfg ''setgrent'' [] fresh_proc =
     Aborts (fresh_proc\<lparr>real_ptr := (\<lambda>n. None)(''setgrent'' := Some count_args),
       trace := [Resolve ''setgrent'', Call_real ''setgrent'' [], Assert_failed]\<rparr>)"
  by (simp add: model_defs example_defs well_formed_def banned_def)

subsection \<open>C3: what a banned call forwards; crypt\<close>

text \<open>
  The pointer a wrapper calls through in a state: the static pointer when it is set,
  what the resolver finds otherwise.
\<close>

lemma resolve_once_ptr:
  "real_ptr (resolve_once cfg name st) name =
     (case real_ptr st name of
        None \<Rightarrow> if qb_bsd cfg then dlsym_libc cfg name else dlsym_next cfg name
      | Some f \<Rightarrow> Some f)"
  by (simp add: resolve_once_def get_real_func_def log_def split: option.splits)

lemma resolve_once_fields:
  "world (resolve_once cfg name st) = world st"
  "tsafe_disabled (resolve_once cfg name st) = tsafe_disabled st"
  "tsafe_inited (resolve_once cfg name st) = tsafe_inited st"
  "coro_environ (resolve_once cfg name st) = coro_environ st"
  "mutex_held (resolve_once cfg name st) = mutex_held st"
  "atfork_handlers (resolve_once cfg name st) = atfork_handlers st"
  by (simp_all add: resolve_once_def get_real_func_def log_def split: option.splits)

text \<open>
  With the gate disabled, a banned wrapper other than \<^verbatim>\<open>crypt\<close> and the non-BSD
  \<^verbatim>\<open>setgrent\<close> hands its arguments to the real function and returns its result; the
  world becomes what the real function made of it.
\<close>

lemma banned_call_passes_through:
  assumes "well_formed name args"
    and "\<not> gate_enabled st"
    and "name \<noteq> ''crypt''"
    and "name \<noteq> ''setgrent'' \<or> qb_bsd cfg"
    and "real_ptr (resolve_once cfg name (snd (gate_off st))) name = Some f"
  shows "\<exists>st'. banned_call cfg name args st = Returns (fst (f args (world st))) st' \<and>
           world st' = snd (f args (world st)) \<and>
           tsafe_disabled st' = tsafe_disabled st \<and> tsafe_inited st' = tsafe_inited st"
proof -
  have w: "world (resolve_once cfg name (snd (gate_off st))) = world st"
    by (simp add: resolve_once_fields gate_off_def log_def)
  have d: "tsafe_disabled (resolve_once cfg name (snd (gate_off st))) = tsafe_disabled st"
    by (simp add: resolve_once_fields gate_off_def log_def)
  have i: "tsafe_inited (resolve_once cfg name (snd (gate_off st))) = tsafe_inited st"
    by (simp add: resolve_once_fields gate_off_def log_def)
  have "banned_call cfg name args st = forward_or_abort cfg name args st"
    using assms(1,3,4) well_formed_setgrent [of args]
    by (auto simp: banned_call_def setgrent_def)
  then show ?thesis
    using assms(2,5) w d i
    by (simp add: forward_or_abort_disabled call_real_def log_def split: prod.splits)
qed

text \<open>
  C3. The claim covers \<^verbatim>\<open>crypt\<close>, and there it fails. With the gate disabled,
  \<^verbatim>\<open>crypt("secret", "ab")\<close> calls the real function with the one argument
  \<^verbatim>\<open>"ab"\<close>: on a platform whose real function returns the number of arguments it was
  given, the wrapper returns 1 where the direct call returns 2.
\<close>

theorem crypt_drops_key:
  "\<not> gate_enabled disabled_proc \<and> well_formed ''crypt'' [Str ''secret'', Str ''ab''] \<and>
   banned_call linux_cfg ''crypt'' [Str ''secret'', Str ''ab''] disabled_proc =
     Returns (Num 1)
       (disabled_proc\<lparr>real_ptr := (\<lambda>n. None)(''crypt'' := Some count_args),
          trace := [Read_flag, Resolve ''crypt'', Call_real ''crypt'' [Str ''ab'']]\<rparr>) \<and>
   count_args [Str ''secret'', Str ''ab''] (world disabled_proc) =
     (Num 2, world disabled_proc)"
  by (simp add: model_defs example_defs well_formed_def banned_def)

subsection \<open>C5: the fork handlers\<close>

text \<open>After one registration, \<^verbatim>\<open>fork\<close> runs each handler once.\<close>

lemma fork_child_once:
  "atfork_handlers st = Suc 0 \<Longrightarrow>
   fork_child st = andthen (atfork_prepare st) atfork_child"
  by (simp add: fork_child_def atfork_prepare_def atfork_child_def tsafe_lock_def
      tsafe_unlock_def Let_def)

lemma fork_parent_once:
  "atfork_handlers st = Suc 0 \<Longrightarrow>
   fork_parent st = andthen (atfork_prepare st) atfork_parent"
  by (simp add: fork_parent_def atfork_prepare_def atfork_parent_def tsafe_lock_def
      tsafe_unlock_def)

text \<open>
  Of the entry points, only the fork handlers leave the lock held, and only
  \<^verbatim>\<open>qb_tsafe_init\<close> registers handlers: a sequence of calls without a second
  initialisation that returns leaves the lock free and the registrations as they were.
\<close>

lemma lock_call_real:
  "mutex_held (state_of (call_real n a st)) = mutex_held st"
  "atfork_handlers (state_of (call_real n a st)) = atfork_handlers st"
  by (simp_all add: call_real_def split: option.splits prod.splits)

lemma lock_gate_off:
  "mutex_held (snd (gate_off st)) = mutex_held st"
  "atfork_handlers (snd (gate_off st)) = atfork_handlers st"
  by (simp_all add: gate_off_def)

lemma lock_forward:
  "mutex_held (state_of (call_real n a (resolve_once cfg n (snd (gate_off st))))) =
     mutex_held st"
  "atfork_handlers (state_of (call_real n a (resolve_once cfg n (snd (gate_off st))))) =
     atfork_handlers st"
  by (simp_all add: lock_call_real resolve_once_fields lock_gate_off)

lemma lock_forward_or_abort:
  "mutex_held (state_of (forward_or_abort cfg n a st)) = mutex_held st"
  "atfork_handlers (state_of (forward_or_abort cfg n a st)) = atfork_handlers st"
proof -
  have "mutex_held (state_of (forward_or_abort cfg n a st)) = mutex_held st \<and>
      atfork_handlers (state_of (forward_or_abort cfg n a st)) = atfork_handlers st"
  proof (cases "gate_enabled st")
    case True
    then show ?thesis by (simp add: forward_or_abort_def gate_off_enabled)
  next
    case False
    then show ?thesis by (simp add: forward_or_abort_disabled lock_forward)
  qed
  then show "mutex_held (state_of (forward_or_abort cfg n a st)) = mutex_held st"
    and "atfork_handlers (state_of (forward_or_abort cfg n a st)) = atfork_handlers st"
    by simp_all
qed

lemma lock_crypt:
  "mutex_held (state_of (crypt cfg k salt st)) = mutex_held st"
  "atfork_handlers (state_of (crypt cfg k salt st)) = atfork_handlers st"
proof -
  have "mutex_held (state_of (crypt cfg k salt st)) = mutex_held st \<and>
      atfork_handlers (state_of (crypt cfg k salt st)) = atfork_handlers st"
  proof (cases "gate_enabled st")
    case True
    then show ?thesis by (simp add: crypt_def gate_off_enabled)
  next
    case False
    then show ?thesis by (simp add: crypt_disabled lock_forward)
  qed
  then show "mutex_held (state_of (crypt cfg k salt st)) = mutex_held st"
    and "atfork_handlers (state_of (crypt cfg k salt st)) = atfork_handlers st"
    by simp_all
qed

lemma lock_setgrent:
  "mutex_held (state_of (setgrent cfg st)) = mutex_held st"
  "atfork_handlers (state_of (setgrent cfg st)) = atfork_handlers st"
proof -
  have "mutex_held (state_of (setgrent cfg st)) = mutex_held st \<and>
      atfork_handlers (state_of (setgrent cfg st)) = atfork_handlers st"
  proof (cases "qb_bsd cfg")
    case True
    then show ?thesis by (simp add: setgrent_def lock_forward_or_abort)
  next
    case False
    show ?thesis
    proof (cases "gate_enabled st")
      case True
      with False show ?thesis by (simp add: setgrent_def gate_off_enabled)
    next
      case en: False
      obtain s1 where s1: "gate_off st = (True, s1)"
        using gate_off_disabled [OF en] by simp
      then have f: "mutex_held s1 = mutex_held st" "atfork_handlers s1 = atfork_handlers st"
        using lock_gate_off [of st] by simp_all
      show ?thesis
        using False s1 f lock_call_real [of "''setgrent''" "[]" "resolve_once cfg ''setgrent'' s1"]
        by (cases "call_real ''setgrent'' [] (resolve_once cfg ''setgrent'' s1)")
          (simp_all add: setgrent_def resolve_once_fields)
    qed
  qed
  then show "mutex_held (state_of (setgrent cfg st)) = mutex_held st"
    and "atfork_handlers (state_of (setgrent cfg st)) = atfork_handlers st"
    by simp_all
qed

lemma lock_banned:
  "mutex_held (state_of (banned_call cfg n a st)) = mutex_held st"
  "atfork_handlers (state_of (banned_call cfg n a st)) = atfork_handlers st"
  by (simp_all add: banned_call_def lock_crypt lock_setgrent lock_forward_or_abort)

lemma lock_getenv:
  "mutex_held (state_of (getenv cfg n st)) = mutex_held st"
  "atfork_handlers (state_of (getenv cfg n st)) = atfork_handlers st"
proof -
  have "mutex_held (state_of (getenv cfg n st)) = mutex_held st \<and>
      atfork_handlers (state_of (getenv cfg n st)) = atfork_handlers st"
  proof (cases "gate_enabled st")
    case True
    then show ?thesis
      by (simp add: getenv_def gate_off_enabled split: option.splits scan.splits)
  next
    case False
    obtain s1 where s1: "gate_off st = (True, s1)"
      using gate_off_disabled [OF False] by simp
    then have eq: "getenv cfg n st =
        call_real ''getenv'' [Str n] (resolve_once cfg ''getenv'' s1)"
      by (simp add: getenv_def)
    from s1 have "s1 = snd (gate_off st)" by simp
    then show ?thesis
      unfolding eq by (simp add: lock_forward)
  qed
  then show "mutex_held (state_of (getenv cfg n st)) = mutex_held st"
    and "atfork_handlers (state_of (getenv cfg n st)) = atfork_handlers st"
    by simp_all
qed

lemma returns_on:
  "qb_tsafe_on st = Returns v s \<Longrightarrow>
   \<not> mutex_held s \<and> atfork_handlers s = atfork_handlers st"
  by (auto simp: qb_tsafe_on_def tsafe_lock_def tsafe_unlock_def split: if_splits)

lemma returns_off:
  "qb_tsafe_off st = Returns v s \<Longrightarrow>
   \<not> mutex_held s \<and> atfork_handlers s = atfork_handlers st"
  by (auto simp: qb_tsafe_off_def tsafe_lock_def tsafe_unlock_def split: if_splits)

lemma returns_pthread_create:
  assumes "pthread_create cfg a st = Returns v s" and "\<not> mutex_held st"
  shows "\<not> mutex_held s \<and> atfork_handlers s = atfork_handlers st"
proof -
  let ?pre = "if tsafe_inited st \<noteq> 0 then
          (let s1 = log Read_flag st in
           if tsafe_disabled s1 \<noteq> 0 then qb_tsafe_on s1 else Returns Void s1)
        else Returns Void st"
  obtain s0 where pre: "?pre = Returns Void s0" and f: "\<not> mutex_held s0"
    "atfork_handlers s0 = atfork_handlers st"
    using assms(2)
    by (cases "tsafe_inited st = 0"; cases "tsafe_disabled st = 0")
      (simp_all add: qb_tsafe_on_def tsafe_lock_def tsafe_unlock_def Let_def)
  have "pthread_create cfg a st =
      call_real ''pthread_create'' a (resolve_once cfg ''pthread_create'' s0)"
    unfolding pthread_create_def pre by simp
  with assms(1) have "state_of (call_real ''pthread_create'' a
      (resolve_once cfg ''pthread_create'' s0)) = s"
    by simp
  then show ?thesis
    using f lock_call_real [of "''pthread_create''" a "resolve_once cfg ''pthread_create'' s0"]
    by (simp add: resolve_once_fields)
qed

text \<open>With the lock free, \<^verbatim>\<open>fork\<close> returns only when at most one registration was made.\<close>

lemma repeat_prepare:
  assumes "repeat n atfork_prepare st = Returns v s" and "\<not> mutex_held st"
  shows "(n = 0 \<and> s = st) \<or> (n = Suc 0 \<and> atfork_prepare st = Returns Void s)"
proof (cases n)
  case 0
  with assms(1) show ?thesis by simp
next
  case (Suc m)
  show ?thesis
  proof (cases m)
    case 0
    with Suc assms show ?thesis
      by (simp add: atfork_prepare_def tsafe_lock_def)
  next
    case (Suc k)
    with \<open>n = Suc m\<close> assms show ?thesis
      by (simp add: atfork_prepare_def tsafe_lock_def)
  qed
qed


lemma returns_fork_parent:
  assumes "fork_parent st = Returns v s" and "\<not> mutex_held st"
  shows "\<not> mutex_held s \<and> atfork_handlers s = atfork_handlers st"
proof -
  let ?n = "atfork_handlers st"
  obtain v0 s0 where p: "repeat ?n atfork_prepare st = Returns v0 s0"
    using assms(1) by (cases "repeat ?n atfork_prepare st") (simp_all add: fork_parent_def)
  from repeat_prepare [OF p assms(2)] show ?thesis
  proof
    assume "?n = 0 \<and> s0 = st"
    with assms p show ?thesis by (simp add: fork_parent_def)
  next
    assume "?n = Suc 0 \<and> atfork_prepare st = Returns Void s0"
    with assms p show ?thesis
      by (auto simp: fork_parent_def atfork_prepare_def atfork_parent_def tsafe_lock_def
          tsafe_unlock_def split: if_splits)
  qed
qed

lemma returns_fork_child:
  assumes "fork_child st = Returns v s" and "\<not> mutex_held st"
  shows "\<not> mutex_held s \<and> atfork_handlers s = atfork_handlers st"
proof -
  let ?n = "atfork_handlers st"
  obtain v0 s0 where p: "repeat ?n atfork_prepare st = Returns v0 s0"
    using assms(1) by (cases "repeat ?n atfork_prepare st") (simp_all add: fork_child_def)
  from repeat_prepare [OF p assms(2)] show ?thesis
  proof
    assume "?n = 0 \<and> s0 = st"
    with assms p show ?thesis by (simp add: fork_child_def)
  next
    assume "?n = Suc 0 \<and> atfork_prepare st = Returns Void s0"
    with assms p show ?thesis
      by (auto simp: fork_child_def atfork_prepare_def atfork_child_def tsafe_lock_def
          tsafe_unlock_def Let_def split: if_splits)
  qed
qed

lemma returns_step:
  assumes "\<not> is_init c" and "step cfg c st = Returns v s" and "\<not> mutex_held st"
  shows "\<not> mutex_held s \<and> atfork_handlers s = atfork_handlers st"
proof (cases c)
  case (Call_tsafe_init envp)
  with assms(1) show ?thesis by simp
next
  case Call_tsafe_on
  with assms(2) show ?thesis by (simp add: returns_on)
next
  case Call_tsafe_off
  with assms(2) show ?thesis by (simp add: returns_off)
next
  case (Call_pthread_create a)
  with assms(2,3) show ?thesis by (simp add: returns_pthread_create)
next
  case (Call_getenv n)
  with assms(2) have "state_of (getenv cfg n st) = s" by simp
  with assms(3) lock_getenv [of cfg n st] show ?thesis by simp
next
  case (Call_catgets c1 c2 c3 c4)
  with assms(2,3) show ?thesis by (simp add: catgets_def)
next
  case (Call_banned n a)
  with assms(2) have "state_of (banned_call cfg n a st) = s" by simp
  with assms(3) lock_banned [of cfg n a st] show ?thesis by simp
next
  case Fork_parent
  with assms(2,3) show ?thesis by (simp add: returns_fork_parent)
next
  case Fork_child
  with assms(2,3) show ?thesis by (simp add: returns_fork_child)
next
  case (External g)
  with assms(2,3) show ?thesis by auto
qed

lemma returns_run:
  assumes "\<not> list_ex is_init cs" and "run cfg cs st = Returns v s" and "\<not> mutex_held st"
  shows "\<not> mutex_held s \<and> atfork_handlers s = atfork_handlers st"
  using assms
proof (induction cs arbitrary: st v)
  case Nil
  then show ?case by simp
next
  case (Cons c cs)
  from Cons.prems(2) obtain v1 s1 where s1: "step cfg c st = Returns v1 s1"
    and rest: "run cfg cs s1 = Returns v s"
    by (cases "step cfg c st") simp_all
  from Cons.prems(1) have c: "\<not> is_init c" and cs: "\<not> list_ex is_init cs"
    by simp_all
  from returns_step [OF c s1 Cons.prems(3)]
  have f: "\<not> mutex_held s1" "atfork_handlers s1 = atfork_handlers st"
    by simp_all
  from Cons.IH [OF cs rest f(1)] f(2) show ?case by simp
qed

lemma registered_after_init:
  assumes "atfork_handlers st0 = 0" and "\<not> mutex_held st0"
    and "\<not> list_ex is_init calls"
    and "run cfg calls (state_of (qb_tsafe_init cfg envp st0)) = Returns r st"
  shows "atfork_handlers st = Suc 0 \<and> \<not> mutex_held st"
proof -
  let ?s1 = "state_of (qb_tsafe_init cfg envp st0)"
  have "\<not> mutex_held ?s1" and "atfork_handlers ?s1 = Suc 0"
    using assms(1,2) by (simp_all add: qb_tsafe_init_def Let_def)
  with returns_run [OF assms(3,4)] show ?thesis by simp
qed

text \<open>
  C5. From a state in which the lock is free: the prepare handler returns with the lock
  held, having done nothing but take it; the parent handler, run in that state, does
  nothing but release it; the child handler, run in that state, releases it too. In the
  child the gate is disabled: \<^verbatim>\<open>tsafe_disabled\<close> is not zero there whenever
  \<^verbatim>\<open>tsafe_inited\<close> is set, and it is 1 when the gate was enabled in the parent. In the
  parent both flags, and so the gate, are as they were before the fork. When the
  handlers are registered once, in particular in a state reached from a process without
  registrations by \<^verbatim>\<open>qb_tsafe_init\<close> and any returning sequence of calls without a second
  initialisation, this is what \<^verbatim>\<open>fork\<close> does in the child and in the parent.
\<close>

theorem fork_handlers_gate:
  assumes "\<not> mutex_held st"
  shows "\<exists>locked child parent.
           atfork_prepare st = Returns Void locked \<and>
           mutex_held locked \<and>
           emitted st (atfork_prepare st) = [Lock] \<and>
           tsafe_disabled locked = tsafe_disabled st \<and>
           tsafe_inited locked = tsafe_inited st \<and>
           atfork_child locked = Returns Void child \<and>
           atfork_parent locked = Returns Void parent \<and>
           emitted locked (atfork_parent locked) = [Unlock] \<and>
           andthen (atfork_prepare st) atfork_child = Returns Void child \<and>
           \<not> gate_enabled child \<and>
           (tsafe_inited st \<noteq> 0 \<longrightarrow> tsafe_disabled child \<noteq> 0) \<and>
           (gate_enabled st \<longrightarrow> tsafe_disabled child = 1) \<and>
           tsafe_inited child = tsafe_inited st \<and> \<not> mutex_held child \<and>
           andthen (atfork_prepare st) atfork_parent = Returns Void parent \<and>
           tsafe_disabled parent = tsafe_disabled st \<and>
           tsafe_inited parent = tsafe_inited st \<and>
           gate_enabled parent = gate_enabled st \<and> \<not> mutex_held parent \<and>
           (atfork_handlers st = Suc 0 \<or>
            atfork_handlers st0 = 0 \<and> \<not> mutex_held st0 \<and> \<not> list_ex is_init calls \<and>
            run cfg calls (state_of (qb_tsafe_init cfg envp st0)) = Returns r st \<longrightarrow>
              fork_child st = Returns Void child \<and> fork_parent st = Returns Void parent)"
proof -
  let ?locked = "log Lock (st\<lparr>mutex_held := True\<rparr>)"
  have prep: "atfork_prepare st = Returns Void ?locked"
    using assms by (simp add: atfork_prepare_def tsafe_lock_def)
  have "\<exists>child. atfork_child ?locked = Returns Void child"
    by (auto simp: atfork_child_def tsafe_unlock_def Let_def)
  then obtain child where child: "atfork_child ?locked = Returns Void child"
    by blast
  obtain parent where parent: "atfork_parent ?locked = Returns Void parent"
    by (simp add: atfork_parent_def tsafe_unlock_def)
  have once: "fork_child st = Returns Void child \<and> fork_parent st = Returns Void parent"
    if "atfork_handlers st = Suc 0"
    using that prep child parent by (simp add: fork_child_once fork_parent_once)
  have reg: "atfork_handlers st = Suc 0"
    if "atfork_handlers st = Suc 0 \<or>
        atfork_handlers st0 = 0 \<and> \<not> mutex_held st0 \<and> \<not> list_ex is_init calls \<and>
        run cfg calls (state_of (qb_tsafe_init cfg envp st0)) = Returns r st"
    using that registered_after_init [of st0 calls cfg envp r st] by blast
  have c: "\<not> gate_enabled child \<and>
      (tsafe_inited st \<noteq> 0 \<longrightarrow> tsafe_disabled child \<noteq> 0) \<and>
      (gate_enabled st \<longrightarrow> tsafe_disabled child = 1) \<and>
      tsafe_inited child = tsafe_inited st \<and> \<not> mutex_held child"
    using child
    by (auto simp: atfork_child_def tsafe_unlock_def gate_enabled_def Let_def
        split: if_splits)
  have p: "tsafe_disabled parent = tsafe_disabled st \<and>
      tsafe_inited parent = tsafe_inited st \<and>
      gate_enabled parent = gate_enabled st \<and> \<not> mutex_held parent \<and>
      emitted ?locked (atfork_parent ?locked) = [Unlock]"
    using parent
    by (auto simp: atfork_parent_def tsafe_unlock_def gate_enabled_def emitted_def)
  have l: "mutex_held ?locked \<and> emitted st (atfork_prepare st) = [Lock] \<and>
      tsafe_disabled ?locked = tsafe_disabled st \<and> tsafe_inited ?locked = tsafe_inited st"
    unfolding prep by (simp add: emitted_def)
  have seq: "andthen (atfork_prepare st) atfork_child = Returns Void child \<and>
      andthen (atfork_prepare st) atfork_parent = Returns Void parent"
    using prep child parent by simp
  show ?thesis
    apply (rule exI [of _ ?locked], rule exI [of _ child], rule exI [of _ parent])
    using prep child parent once reg c p l seq by blast
qed


theorem fork_handlers_gate_witness:
  "\<not> mutex_held example_proc \<and> gate_enabled example_proc \<and>
   tsafe_inited example_proc \<noteq> 0 \<and>
   atfork_handlers fresh_proc = 0 \<and> \<not> mutex_held fresh_proc \<and>
   \<not> list_ex is_init example_calls \<and>
   run linux_cfg example_calls
     (state_of (qb_tsafe_init linux_cfg [''PATH=/bin'', ''HOME=/root''] fresh_proc)) =
     Returns Void example_proc \<and>
   mutex_held (state_of (atfork_prepare example_proc)) \<and>
   emitted example_proc (atfork_prepare example_proc) = [Lock] \<and>
   \<not> mutex_held (state_of (atfork_parent (state_of (atfork_prepare example_proc)))) \<and>
   \<not> gate_enabled (state_of (fork_child example_proc)) \<and>
   tsafe_disabled (state_of (fork_child example_proc)) = 1 \<and>
   gate_enabled (state_of (fork_parent example_proc)) \<and>
   \<not> mutex_held (state_of (fork_parent example_proc)) \<and>
   \<not> gate_enabled (state_of (andthen (atfork_prepare enabled_proc) atfork_child)) \<and>
   tsafe_disabled (state_of (andthen (atfork_prepare enabled_proc) atfork_child)) = 1 \<and>
   gate_enabled (state_of (andthen (atfork_prepare enabled_proc) atfork_parent))"
proof -
  let ?envp = "[''PATH=/bin'', ''HOME=/root'']"
  have free: "\<not> mutex_held example_proc"
    by (simp add: model_defs example_defs)
  have en: "gate_enabled example_proc" and ini: "tsafe_inited example_proc \<noteq> 0"
    by (simp_all add: model_defs example_defs)
  have f0: "atfork_handlers fresh_proc = 0" "\<not> mutex_held fresh_proc"
    by (simp_all add: fresh_proc_def boot_def)
  have noinit: "\<not> list_ex is_init example_calls"
    by (simp add: example_calls_def)
  have ret: "run linux_cfg example_calls
      (state_of (qb_tsafe_init linux_cfg ?envp fresh_proc)) = Returns Void example_proc"
    by (simp add: model_defs example_defs)
  from fork_handlers_gate [OF free, where ?st0.0 = fresh_proc and calls = example_calls
      and cfg = linux_cfg and envp = ?envp and r = Void]
  obtain locked child parent where
    a: "atfork_prepare example_proc = Returns Void locked" "mutex_held locked"
      "emitted example_proc (atfork_prepare example_proc) = [Lock]"
      "atfork_parent locked = Returns Void parent"
      "\<not> gate_enabled child" "gate_enabled example_proc \<longrightarrow> tsafe_disabled child = 1"
      "gate_enabled parent = gate_enabled example_proc" "\<not> mutex_held parent"
    and b: "atfork_handlers example_proc = Suc 0 \<or>
        atfork_handlers fresh_proc = 0 \<and> \<not> mutex_held fresh_proc \<and>
        \<not> list_ex is_init example_calls \<and>
        run linux_cfg example_calls (state_of (qb_tsafe_init linux_cfg ?envp fresh_proc)) =
          Returns Void example_proc \<longrightarrow>
        fork_child example_proc = Returns Void child \<and>
        fork_parent example_proc = Returns Void parent"
    by blast
  from b f0 noinit ret have fk: "fork_child example_proc = Returns Void child"
    "fork_parent example_proc = Returns Void parent"
    by blast+
  have 1: "mutex_held (state_of (atfork_prepare example_proc))"
    using a(1,2) by simp
  have 2: "\<not> mutex_held (state_of (atfork_parent (state_of (atfork_prepare example_proc))))"
    using a(1,4,8) by simp
  have 3: "\<not> gate_enabled (state_of (fork_child example_proc))"
    "tsafe_disabled (state_of (fork_child example_proc)) = 1"
    using fk(1) a(5,6) en by simp_all
  have 4: "gate_enabled (state_of (fork_parent example_proc))"
    "\<not> mutex_held (state_of (fork_parent example_proc))"
    using fk(2) a(7,8) en by simp_all
  have free': "\<not> mutex_held enabled_proc"
    by (simp add: enabled_proc_def)
  have en': "gate_enabled enabled_proc"
    by (simp add: gate_enabled_def enabled_proc_def)
  from fork_handlers_gate [OF free', where ?st0.0 = fresh_proc and calls = "[]"
      and cfg = linux_cfg and envp = "[]" and r = Void]
  obtain child' parent' where
    c: "andthen (atfork_prepare enabled_proc) atfork_child = Returns Void child'"
      "\<not> gate_enabled child'" "gate_enabled enabled_proc \<longrightarrow> tsafe_disabled child' = 1"
      "andthen (atfork_prepare enabled_proc) atfork_parent = Returns Void parent'"
      "gate_enabled parent' = gate_enabled enabled_proc"
    by blast
  have 5: "\<not> gate_enabled (state_of (andthen (atfork_prepare enabled_proc) atfork_child)) \<and>
      tsafe_disabled (state_of (andthen (atfork_prepare enabled_proc) atfork_child)) = 1 \<and>
      gate_enabled (state_of (andthen (atfork_prepare enabled_proc) atfork_parent))"
    using c en' by simp
  from free en ini f0 noinit ret 1 a(3) 2 3 4 5 show ?thesis
    by (intro conjI) (erule conjunct1 conjunct2 | simp)+
qed

subsection \<open>C10: what the snapshot lookup returns\<close>

lemma strchr_takeWhile:
  "c \<in> set e \<Longrightarrow> strchr e c = Some (length (takeWhile (\<lambda>x. x \<noteq> c) e))"
  by (induction e) auto

lemma strncmp_zero_iff: "strncmp a b n = 0 \<longleftrightarrow> take n a = take n b"
  by (induction a b n rule: strncmp.induct) auto

lemma take_entry_name: "take (length (entry_name e)) e = entry_name e"
  unfolding entry_name_def by (rule takeWhile_eq_take [symmetric])

lemma match_iff_name:
  "(length (entry_name e) = length name \<and> strncmp name e (length (entry_name e)) = 0)
     \<longleftrightarrow> entry_name e = name"
proof
  assume a: "length (entry_name e) = length name \<and>
    strncmp name e (length (entry_name e)) = 0"
  from a have l: "length (entry_name e) = length name"
    by (rule conjunct1)
  from a have "strncmp name e (length (entry_name e)) = 0"
    by (rule conjunct2)
  then have t: "take (length (entry_name e)) name = take (length (entry_name e)) e"
    by (simp only: strncmp_zero_iff)
  have "name = take (length (entry_name e)) name"
    by (simp only: l take_all order_refl)
  also have "\<dots> = take (length (entry_name e)) e"
    by (rule t)
  also have "\<dots> = entry_name e"
    by (rule take_entry_name)
  finally show "entry_name e = name"
    by (rule sym)
next
  assume "entry_name e = name"
  then show "length (entry_name e) = length name \<and>
    strncmp name e (length (entry_name e)) = 0"
    using take_entry_name [of e] by (simp add: strncmp_zero_iff)
qed

lemma scan_environ_step:
  assumes "CHR ''='' \<in> set e"
  shows "scan_environ name (e # es) k =
           (if entry_name e = name then Found k else scan_environ name es (Suc k))"
proof -
  have "strchr e CHR ''='' = Some (length (entry_name e))"
    using assms by (simp add: strchr_takeWhile entry_name_def)
  then show ?thesis
    using match_iff_name [of e name] by auto
qed

lemma scan_environ_not_found:
  "\<forall>e\<in>set env. CHR ''='' \<in> set e \<and> entry_name e \<noteq> name \<Longrightarrow>
   scan_environ name env k = Not_found"
  by (induction env arbitrary: k)
    (simp_all add: scan_environ_step del: scan_environ.simps(2))

lemma scan_environ_found:
  assumes "\<forall>e\<in>set env. CHR ''='' \<in> set e"
    and "i < length env"
    and "entry_name (env ! i) = name"
    and "\<forall>j<i. entry_name (env ! j) \<noteq> name"
  shows "scan_environ name env k = Found (k + i)"
  using assms
proof (induction env arbitrary: i k)
  case Nil
  then show ?case by simp
next
  case (Cons e es)
  show ?case
  proof (cases i)
    case 0
    with Cons.prems show ?thesis
      by (simp add: scan_environ_step del: scan_environ.simps(2))
  next
    case (Suc i')
    from Cons.prems(4) Suc have "entry_name e \<noteq> name" by auto
    moreover have "scan_environ name es (Suc k) = Found (Suc k + i')"
    proof (rule Cons.IH)
      show "\<forall>e\<in>set es. CHR ''='' \<in> set e" using Cons.prems(1) by simp
      show "i' < length es" using Cons.prems(2) Suc by simp
      show "entry_name (es ! i') = name" using Cons.prems(3) Suc by simp
      show "\<forall>j<i'. entry_name (es ! j) \<noteq> name"
      proof (intro allI impI)
        fix j assume "j < i'"
        then have "Suc j < i" using Suc by simp
        with Cons.prems(4) have "entry_name ((e # es) ! Suc j) \<noteq> name" by blast
        then show "entry_name (es ! j) \<noteq> name" by simp
      qed
    qed
    ultimately show ?thesis
      using Cons.prems(1) Suc
      by (simp add: scan_environ_step del: scan_environ.simps(2))
  qed
qed

lemma getenv_enabled:
  assumes "gate_enabled st" and "coro_environ st = Some env"
  shows "getenv cfg name st =
           (case scan_environ name env 0 of
              Bad_entry \<Rightarrow> Faults (log Read_flag st)
            | Not_found \<Rightarrow> Returns Null (log Read_flag st)
            | Found entry \<Rightarrow>
                (case strchr (env ! entry) CHR ''='' of
                   None \<Rightarrow> Faults (log Read_flag st)
                 | Some eq \<Rightarrow> Returns (Env_ptr entry (eq + 1)) (log Read_flag st)))"
  using assms by (simp add: getenv_def gate_off_enabled)

lemma getenv_enabled_not_found:
  assumes "gate_enabled st"
    and "coro_environ st = Some env"
    and "\<forall>e\<in>set env. CHR ''='' \<in> set e \<and> entry_name e \<noteq> name"
  shows "getenv cfg name st = Returns Null (log Read_flag st)"
  using assms by (simp add: getenv_enabled scan_environ_not_found)

lemma getenv_enabled_found:
  assumes "gate_enabled st"
    and "coro_environ st = Some env"
    and "\<forall>e\<in>set env. CHR ''='' \<in> set e"
    and "i < length env"
    and "entry_name (env ! i) = name"
    and "\<forall>j<i. entry_name (env ! j) \<noteq> name"
  shows "getenv cfg name st = Returns (Env_ptr i (Suc (length name))) (log Read_flag st)"
    and "deref st (Env_ptr i (Suc (length name))) = Some (entry_value (env ! i))"
proof -
  have "scan_environ name env 0 = Found (0 + i)"
    using assms(3-6) by (rule scan_environ_found)
  moreover have "strchr (env ! i) CHR ''='' = Some (length name)"
    using assms(3,4,5) by (auto simp: strchr_takeWhile entry_name_def)
  ultimately show "getenv cfg name st =
      Returns (Env_ptr i (Suc (length name))) (log Read_flag st)"
    using assms(1,2) by (simp add: getenv_enabled)
  show "deref st (Env_ptr i (Suc (length name))) = Some (entry_value (env ! i))"
    using assms(2,4,5) by (auto simp: entry_value_def)
qed

text \<open>
  C10. In a state with the gate enabled whose snapshot entries all contain
  \<^verbatim>\<open>'='\<close>: when no entry has the name, \<^verbatim>\<open>getenv\<close> returns \<^verbatim>\<open>NULL\<close>; when entry \<open>i\<close> is
  the first with the name, it returns the pointer into entry \<open>i\<close> at the offset one past
  the first \<^verbatim>\<open>'='\<close>, which is one past the length of the name, and the string there is
  the entry's value. Either way the state after the call is the state before it with
  the read of the flag added to the trace: the snapshot is not copied or changed.
\<close>

theorem getenv_snapshot_result:
  assumes "gate_enabled st"
    and "coro_environ st = Some env"
    and "\<forall>e\<in>set env. CHR ''='' \<in> set e"
  shows "((\<forall>e\<in>set env. entry_name e \<noteq> name) \<longrightarrow>
            getenv cfg name st = Returns Null (st\<lparr>trace := trace st @ [Read_flag]\<rparr>)) \<and>
         (\<forall>i. i < length env \<and> entry_name (env ! i) = name \<and>
               (\<forall>j<i. entry_name (env ! j) \<noteq> name) \<longrightarrow>
            getenv cfg name st =
              Returns (Env_ptr i (Suc (length name)))
                (st\<lparr>trace := trace st @ [Read_flag]\<rparr>) \<and>
            deref st (Env_ptr i (Suc (length name))) = Some (entry_value (env ! i)))"
proof (intro conjI allI impI)
  assume "\<forall>e\<in>set env. entry_name e \<noteq> name"
  with assms(3) have "\<forall>e\<in>set env. CHR ''='' \<in> set e \<and> entry_name e \<noteq> name"
    by simp
  from getenv_enabled_not_found [OF assms(1,2) this]
  show "getenv cfg name st = Returns Null (st\<lparr>trace := trace st @ [Read_flag]\<rparr>)"
    by (simp add: log_def)
next
  fix i
  assume i: "i < length env \<and> entry_name (env ! i) = name \<and>
    (\<forall>j<i. entry_name (env ! j) \<noteq> name)"
  then have 1: "i < length env" and 2: "entry_name (env ! i) = name"
    and 3: "\<forall>j<i. entry_name (env ! j) \<noteq> name"
    by simp_all
  from getenv_enabled_found(1) [OF assms 1 2 3]
  show "getenv cfg name st =
      Returns (Env_ptr i (Suc (length name))) (st\<lparr>trace := trace st @ [Read_flag]\<rparr>)"
    by (simp add: log_def)
  from getenv_enabled_found(2) [OF assms 1 2 3]
  show "deref st (Env_ptr i (Suc (length name))) = Some (entry_value (env ! i))" .
qed

theorem getenv_snapshot_result_witness:
  "gate_enabled enabled_proc \<and>
   coro_environ enabled_proc = Some [''PATH=/bin'', ''HOME=/root''] \<and>
   getenv linux_cfg ''HOME'' enabled_proc =
     Returns (Env_ptr 1 5) (enabled_proc\<lparr>trace := [Read_flag]\<rparr>) \<and>
   deref enabled_proc (Env_ptr 1 5) = Some ''/root'' \<and>
   getenv linux_cfg ''SHELL'' enabled_proc =
     Returns Null (enabled_proc\<lparr>trace := [Read_flag]\<rparr>)"
proof -
  have en: "gate_enabled enabled_proc"
    by (simp add: gate_enabled_def enabled_proc_def)
  have env: "coro_environ enabled_proc = Some [''PATH=/bin'', ''HOME=/root'']"
    by (simp add: enabled_proc_def)
  have eqs: "\<forall>e\<in>set [''PATH=/bin'', ''HOME=/root'']. CHR ''='' \<in> set e"
    by simp
  have tr: "trace enabled_proc = []"
    by (simp add: enabled_proc_def)
  have names: "entry_name ''PATH=/bin'' = ''PATH''" "entry_name ''HOME=/root'' = ''HOME''"
    by (simp_all add: entry_name_def)
  have val: "entry_value ''HOME=/root'' = ''/root''"
    by (simp add: entry_value_def names)
  note res = getenv_snapshot_result [OF en env eqs]
  have first: "Suc 0 < length [''PATH=/bin'', ''HOME=/root''] \<and>
      entry_name ([''PATH=/bin'', ''HOME=/root''] ! Suc 0) = ''HOME'' \<and>
      (\<forall>j<Suc 0. entry_name ([''PATH=/bin'', ''HOME=/root''] ! j) \<noteq> ''HOME'')"
    by (simp add: names)
  from res [of "''HOME''" linux_cfg, THEN conjunct2, THEN spec, of "Suc 0", THEN mp, OF first]
  have home: "getenv linux_cfg ''HOME'' enabled_proc =
          Returns (Env_ptr 1 5) (enabled_proc\<lparr>trace := [Read_flag]\<rparr>) \<and>
        deref enabled_proc (Env_ptr 1 5) = Some ''/root''"
    by (simp add: names val tr env eval_nat_numeral)
  have none: "\<forall>e\<in>set [''PATH=/bin'', ''HOME=/root'']. entry_name e \<noteq> ''SHELL''"
    by (simp add: names)
  from res [of "''SHELL''" linux_cfg, THEN conjunct1, THEN mp, OF none]
  have "getenv linux_cfg ''SHELL'' enabled_proc =
          Returns Null (enabled_proc\<lparr>trace := [Read_flag]\<rparr>)"
    by (simp add: tr)
  with home en show ?thesis using env by blast
qed

subsection \<open>C6: the snapshot outlives changes of the real environment\<close>

text \<open>Nothing but \<^verbatim>\<open>qb_tsafe_init\<close> writes \<^verbatim>\<open>coro_environ\<close>.\<close>

lemma state_of_andthen:
  "state_of (andthen out k) = (case out of Returns v s \<Rightarrow> state_of (k s) | _ \<Rightarrow> state_of out)"
  by (cases out) simp_all

lemma coro_call_real [simp]:
  "coro_environ (state_of (call_real n a st)) = coro_environ st"
  by (simp add: call_real_def split: option.splits prod.splits)

lemma coro_gate_off [simp]: "coro_environ (snd (gate_off st)) = coro_environ st"
  by (simp add: gate_off_def)

lemma coro_forward [simp]:
  "coro_environ (state_of (forward_or_abort cfg n a st)) = coro_environ st"
  by (simp add: forward_or_abort_def gate_off_def resolve_once_fields)

lemma coro_crypt [simp]:
  "coro_environ (state_of (crypt cfg k salt st)) = coro_environ st"
  by (simp add: crypt_def gate_off_def resolve_once_fields)

lemma coro_setgrent [simp]:
  "coro_environ (state_of (setgrent cfg st)) = coro_environ st"
  by (simp add: setgrent_def gate_off_def resolve_once_fields call_real_def
      split: option.splits prod.splits)

lemma coro_banned [simp]:
  "coro_environ (state_of (banned_call cfg n a st)) = coro_environ st"
  by (simp add: banned_call_def)

lemma coro_getenv [simp]:
  "coro_environ (state_of (getenv cfg n st)) = coro_environ st"
  by (simp add: getenv_def gate_off_def resolve_once_fields
      split: option.splits scan.splits)

lemma coro_lock [simp]: "coro_environ (state_of (tsafe_lock st)) = coro_environ st"
  by (simp add: tsafe_lock_def)

lemma coro_unlock [simp]: "coro_environ (state_of (tsafe_unlock st)) = coro_environ st"
  by (simp add: tsafe_unlock_def)

lemma coro_on [simp]: "coro_environ (state_of (qb_tsafe_on st)) = coro_environ st"
  by (simp add: qb_tsafe_on_def tsafe_lock_def tsafe_unlock_def)

lemma coro_off [simp]: "coro_environ (state_of (qb_tsafe_off st)) = coro_environ st"
  by (simp add: qb_tsafe_off_def tsafe_lock_def tsafe_unlock_def)

lemma coro_pthread_create [simp]:
  "coro_environ (state_of (pthread_create cfg a st)) = coro_environ st"
  by (simp add: pthread_create_def qb_tsafe_on_def tsafe_lock_def tsafe_unlock_def
      resolve_once_fields Let_def)

lemma coro_repeat:
  assumes "\<And>s. coro_environ (state_of (f s)) = coro_environ s"
  shows "coro_environ (state_of (repeat n f st)) = coro_environ st"
proof (induction n arbitrary: st)
  case 0
  show ?case by simp
next
  case (Suc n)
  show ?case
    using assms [of st] Suc.IH by (cases "f st") simp_all
qed

lemma coro_fork_parent [simp]:
  fixes st :: "'w proc"
  shows "coro_environ (state_of (fork_parent st)) = coro_environ st"
proof -
  let ?n = "atfork_handlers st"
  have p: "coro_environ (state_of (repeat ?n atfork_prepare st)) = coro_environ st"
    by (rule coro_repeat) (simp add: atfork_prepare_def)
  have q: "coro_environ (state_of (repeat ?n atfork_parent s)) = coro_environ s"
    for s :: "'w proc"
    by (rule coro_repeat) (simp add: atfork_parent_def)
  show ?thesis
  proof (cases "repeat ?n atfork_prepare st")
    case (Returns x s)
    with p q [of s] show ?thesis by (simp add: fork_parent_def)
  qed (use p in \<open>simp_all add: fork_parent_def\<close>)
qed

lemma coro_atfork_child [simp]:
  "coro_environ (state_of (atfork_child st)) = coro_environ st"
  by (simp add: atfork_child_def tsafe_unlock_def Let_def)

lemma coro_fork_child [simp]:
  fixes st :: "'w proc"
  shows "coro_environ (state_of (fork_child st)) = coro_environ st"
proof -
  let ?n = "atfork_handlers st"
  have p: "coro_environ (state_of (repeat ?n atfork_prepare st)) = coro_environ st"
    by (rule coro_repeat) (simp add: atfork_prepare_def)
  have q: "coro_environ (state_of (repeat ?n atfork_child s)) = coro_environ s"
    for s :: "'w proc"
    by (rule coro_repeat) simp
  show ?thesis
  proof (cases "repeat ?n atfork_prepare st")
    case (Returns x s)
    with p q [of s] show ?thesis by (simp add: fork_child_def)
  qed (use p in \<open>simp_all add: fork_child_def\<close>)
qed

lemma coro_step:
  "\<not> is_init c \<Longrightarrow> coro_environ (state_of (step cfg c st)) = coro_environ st"
  by (cases c) (simp_all add: catgets_def)

lemma coro_run:
  "\<not> list_ex is_init cs \<Longrightarrow> run cfg cs st = Returns r st' \<Longrightarrow>
   coro_environ st' = coro_environ st"
proof (induction cs arbitrary: st)
  case Nil
  then show ?case by simp
next
  case (Cons c cs)
  then show ?case
    using coro_step [of c cfg st]
    by (cases "step cfg c st") auto
qed

lemma captured_first:
  "captured envp name = Some v \<Longrightarrow>
   \<exists>i. i < length envp \<and> entry_name (envp ! i) = name \<and>
       (\<forall>j<i. entry_name (envp ! j) \<noteq> name) \<and> entry_value (envp ! i) = v"
proof (induction envp)
  case Nil
  then show ?case by (simp add: captured_def)
next
  case (Cons e es)
  show ?case
  proof (cases "entry_name e = name")
    case True
    with Cons.prems have "entry_value e = v" by (simp add: captured_def)
    with True show ?thesis by (intro exI [of _ 0]) simp
  next
    case False
    with Cons.prems have "captured es name = Some v" by (simp add: captured_def)
    from Cons.IH [OF this] obtain i where i: "i < length es" "entry_name (es ! i) = name"
      "\<forall>j<i. entry_name (es ! j) \<noteq> name" "entry_value (es ! i) = v"
      by blast
    have "\<forall>j<Suc i. entry_name ((e # es) ! j) \<noteq> name"
    proof (intro allI impI)
      fix j assume "j < Suc i"
      then show "entry_name ((e # es) ! j) \<noteq> name"
        using False i(3) by (cases j) simp_all
    qed
    with i show ?thesis by (intro exI [of _ "Suc i"]) simp
  qed
qed

text \<open>
  C6. Let every entry of \<open>envp\<close> contain \<^verbatim>\<open>'='\<close> and let \<open>name\<close> be bound in it to
  \<open>v\<close>. After \<^verbatim>\<open>qb_tsafe_init(envp)\<close> and any sequence of later calls other than another
  initialisation (calls of the entry points, forks, changes of the real environment
  made through the real functions or behind the file's back), if the sequence returned
  and the gate is enabled, then \<^verbatim>\<open>getenv(name)\<close> returns a pointer to the string \<open>v\<close>.
  The state after the call is the state before it with the read of the flag added to
  the trace: the real \<^verbatim>\<open>getenv\<close> was neither resolved nor called.
\<close>

theorem getenv_serves_snapshot:
  assumes "\<forall>e\<in>set envp. CHR ''='' \<in> set e"
    and "captured envp name = Some v"
    and "\<not> list_ex is_init calls"
    and "run cfg calls (state_of (qb_tsafe_init cfg envp st0)) = Returns r st"
    and "gate_enabled st"
  shows "\<exists>p. getenv cfg name st = Returns p (st\<lparr>trace := trace st @ [Read_flag]\<rparr>) \<and>
             deref st p = Some v"
proof -
  have "coro_environ (state_of (qb_tsafe_init cfg envp st0)) = Some envp"
    by (simp add: qb_tsafe_init_def Let_def)
  with coro_run [OF assms(3,4)] have env: "coro_environ st = Some envp"
    by simp
  from captured_first [OF assms(2)] obtain i where i: "i < length envp"
    "entry_name (envp ! i) = name" "\<forall>j<i. entry_name (envp ! j) \<noteq> name"
    "entry_value (envp ! i) = v"
    by blast
  have "getenv cfg name st =
      Returns (Env_ptr i (Suc (length name))) (st\<lparr>trace := trace st @ [Read_flag]\<rparr>)"
    using getenv_enabled_found(1) [OF assms(5) env assms(1) i(1,2,3)]
    by (simp add: log_def)
  moreover have "deref st (Env_ptr i (Suc (length name))) = Some v"
    using getenv_enabled_found(2) [OF assms(5) env assms(1) i(1,2,3)] i(4)
    by simp
  ultimately show ?thesis by blast
qed


theorem getenv_serves_snapshot_witness:
  "CHR ''='' \<in> set ''PATH=/bin'' \<and> CHR ''='' \<in> set ''HOME=/root'' \<and>
   captured [''PATH=/bin'', ''HOME=/root''] ''PATH'' = Some ''/bin'' \<and>
   \<not> list_ex is_init example_calls \<and>
   run linux_cfg example_calls
     (state_of (qb_tsafe_init linux_cfg [''PATH=/bin'', ''HOME=/root''] fresh_proc)) =
     Returns Void example_proc \<and>
   gate_enabled example_proc \<and>
   world example_proc = [''PATH=/sbin''] \<and>
   (\<exists>p. getenv linux_cfg ''PATH'' example_proc =
          Returns p (example_proc\<lparr>trace := trace example_proc @ [Read_flag]\<rparr>) \<and>
        deref example_proc p = Some ''/bin'')"
proof -
  let ?envp = "[''PATH=/bin'', ''HOME=/root'']"
  have eqs: "\<forall>e\<in>set ?envp. CHR ''='' \<in> set e"
    by simp
  have cap: "captured ?envp ''PATH'' = Some ''/bin''"
    by (simp add: captured_def entry_name_def entry_value_def)
  have noinit: "\<not> list_ex is_init example_calls"
    by (simp add: example_calls_def)
  have ret: "run linux_cfg example_calls
      (state_of (qb_tsafe_init linux_cfg ?envp fresh_proc)) = Returns Void example_proc"
    by (simp add: model_defs example_defs)
  have en: "gate_enabled example_proc"
    by (simp add: model_defs example_defs)
  have w: "world example_proc = [''PATH=/sbin'']"
    by (simp add: model_defs example_defs)
  from getenv_serves_snapshot [OF eqs cap noinit ret en]
  show ?thesis using cap noinit ret en w by simp
qed

subsection \<open>C7: resolution happens at most once\<close>
































text \<open>
  Taken one after the other by a single thread, the steps of the common body make up
  \<open>forward_or_abort\<close>.
\<close>

lemma serial_forward_or_abort:
  "case interleave cfg [0, 0, 0, 0] [first_call name args] st of
     (ts, st') \<Rightarrow> outcome_at (at (ts ! 0)) st' = Some (forward_or_abort cfg name args st)"
proof (cases "gate_enabled st")
  case True
  then show ?thesis
    by (simp add: first_call_def process_ended_def forward_or_abort_def gate_off_enabled)
next
  case False
  obtain s1 where s1: "gate_off st = (True, s1)"
    using gate_off_disabled [OF False] by simp
  show ?thesis
  proof (cases "real_ptr s1 name")
    case None
    then show ?thesis
      using s1
      by (cases "fst (get_real_func cfg name s1)")
        (simp_all add: first_call_def process_ended_def forward_or_abort_def call_real_def
          resolve_once_def get_real_func_def split: prod.splits)
  next
    case (Some f)
    then show ?thesis
      using s1
      by (simp add: first_call_def process_ended_def forward_or_abort_def call_real_def
          resolve_once_def split: prod.splits)
  qed
qed
















subsection \<open>C8: which accesses to the flag hold the lock\<close>

text \<open>
  C8, as stated, fails. The test at the top of \<^verbatim>\<open>getenv\<close>, of \<^verbatim>\<open>pthread_create\<close> and of
  every banned wrapper reads \<^verbatim>\<open>tsafe_disabled\<close> without taking the lock, and
  \<^verbatim>\<open>qb_tsafe_init\<close> writes it without taking the lock: in an initialised process with the
  lock free, the events of \<^verbatim>\<open>getenv("PATH")\<close>, of \<^verbatim>\<open>pthread_create\<close>, of \<^verbatim>\<open>rand()\<close> and of
  \<^verbatim>\<open>qb_tsafe_init\<close> each hold an access outside any \<open>Lock\<close> ... \<open>Unlock\<close> pair.
\<close>

theorem flag_accesses_unlocked:
  "\<not> mutex_held enabled_proc \<and>
   emitted enabled_proc (getenv linux_cfg ''PATH'' enabled_proc) = [Read_flag] \<and>
   \<not> locked_accesses (mutex_held enabled_proc)
       (emitted enabled_proc (getenv linux_cfg ''PATH'' enabled_proc)) \<and>
   \<not> mutex_held disabled_proc \<and>
   emitted disabled_proc (pthread_create linux_cfg [Obj 1, Null, Obj 2, Null] disabled_proc) =
     [Read_flag, Lock, Write_flag 0, Unlock, Resolve ''pthread_create'',
      Call_real ''pthread_create'' [Obj 1, Null, Obj 2, Null]] \<and>
   \<not> locked_accesses (mutex_held disabled_proc)
       (emitted disabled_proc
          (pthread_create linux_cfg [Obj 1, Null, Obj 2, Null] disabled_proc)) \<and>
   emitted enabled_proc (banned_call linux_cfg ''rand'' [] enabled_proc) =
     [Read_flag, Assert_failed] \<and>
   \<not> locked_accesses (mutex_held enabled_proc)
       (emitted enabled_proc (banned_call linux_cfg ''rand'' [] enabled_proc)) \<and>
   emitted fresh_proc (qb_tsafe_init linux_cfg [''PATH=/bin''] fresh_proc) = [Write_flag 1] \<and>
   \<not> locked_accesses (mutex_held fresh_proc)
       (emitted fresh_proc (qb_tsafe_init linux_cfg [''PATH=/bin''] fresh_proc))"
  by (simp add: emitted_def model_defs example_defs)

lemma emitted_append:
  "trace (state_of out) = trace st @ es \<Longrightarrow> emitted st out = es"
  by (simp add: emitted_def)

lemma locked_writes_no_write:
  "\<not> list_ex is_write es \<Longrightarrow> locked_writes held es"
  by (induction held es rule: locked_writes.induct) simp_all

lemma locked_writes_append:
  "locked_writes held es \<Longrightarrow> \<not> list_ex is_write es' \<Longrightarrow> locked_writes held (es @ es')"
  by (induction held es rule: locked_writes.induct) (auto simp: locked_writes_no_write)

lemma trace_forward:
  "\<exists>es. trace (state_of (call_real n a (resolve_once cfg n s))) = trace s @ es \<and>
        \<not> list_ex is_write es"
proof (cases "real_ptr s n")
  case None
  then show ?thesis
    by (cases "fst (get_real_func cfg n s)")
      (simp_all add: call_real_def resolve_once_def get_real_func_def split: prod.splits)
next
  case (Some f)
  then show ?thesis
    by (simp add: call_real_def resolve_once_def split: prod.splits)
qed


lemma forward_locked_writes:
  assumes "trace s = trace st @ es" and "locked_writes held es"
  shows "locked_writes held (emitted st (call_real n a (resolve_once cfg n s)))"
proof -
  obtain es' where "trace (state_of (call_real n a (resolve_once cfg n s))) = trace s @ es'"
    and "\<not> list_ex is_write es'"
    using trace_forward by blast
  with assms show ?thesis
    by (simp add: emitted_def locked_writes_append)
qed

lemma gate_off_trace:
  "trace (snd (gate_off st)) = trace st @ (if tsafe_inited st = 0 then [] else [Read_flag])"
  by (simp add: gate_off_def)

lemma gate_off_locked_writes:
  "locked_writes held (if tsafe_inited st = 0 then [] else [Read_flag])"
  by simp

lemma forward_or_abort_locked_writes:
  "locked_writes False (emitted st (forward_or_abort cfg n a st))"
proof (cases "gate_enabled st")
  case True
  then show ?thesis
    by (simp add: forward_or_abort_def gate_off_enabled emitted_def)
next
  case False
  then show ?thesis
    using forward_locked_writes [OF gate_off_trace gate_off_locked_writes]
    by (simp add: forward_or_abort_disabled)
qed

lemma crypt_locked_writes:
  "locked_writes False (emitted st (crypt cfg k salt st))"
proof (cases "gate_enabled st")
  case True
  then show ?thesis
    by (simp add: crypt_def gate_off_enabled emitted_def)
next
  case False
  then show ?thesis
    using forward_locked_writes [OF gate_off_trace gate_off_locked_writes]
    by (simp add: crypt_disabled)
qed

lemma setgrent_locked_writes:
  "locked_writes False (emitted st (setgrent cfg st))"
proof (cases "qb_bsd cfg")
  case True
  then show ?thesis
    by (simp add: setgrent_def forward_or_abort_locked_writes)
next
  case False
  show ?thesis
  proof (cases "gate_enabled st")
    case True
    with False show ?thesis
      by (simp add: setgrent_def gate_off_enabled emitted_def)
  next
    case en: False
    obtain s1 where s1: "gate_off st = (True, s1)"
      using gate_off_disabled [OF en] by simp
    then have t1: "trace s1 = trace st @ (if tsafe_inited st = 0 then [] else [Read_flag])"
      using gate_off_trace [of st] by simp
    obtain es' where es': "trace (state_of (call_real ''setgrent'' []
        (resolve_once cfg ''setgrent'' s1))) = trace s1 @ es'" "\<not> list_ex is_write es'"
      using trace_forward by blast
    have "trace (state_of (andthen (call_real ''setgrent'' []
        (resolve_once cfg ''setgrent'' s1)) (\<lambda>s. Aborts (log Assert_failed s)))) =
        trace s1 @ es' \<or>
      trace (state_of (andthen (call_real ''setgrent'' []
        (resolve_once cfg ''setgrent'' s1)) (\<lambda>s. Aborts (log Assert_failed s)))) =
        trace s1 @ es' @ [Assert_failed]"
      using es'(1)
      by (cases "call_real ''setgrent'' [] (resolve_once cfg ''setgrent'' s1)") simp_all
    then show ?thesis
      using False s1 t1 es'(2)
      by (auto simp: setgrent_def emitted_def locked_writes_no_write)
  qed
qed

lemma banned_locked_writes:
  "locked_writes False (emitted st (banned_call cfg n a st))"
  by (simp add: banned_call_def crypt_locked_writes setgrent_locked_writes
      forward_or_abort_locked_writes)

lemma getenv_locked_writes:
  "locked_writes False (emitted st (getenv cfg n st))"
proof (cases "gate_enabled st")
  case True
  then show ?thesis
    by (simp add: getenv_def gate_off_enabled emitted_def split: option.splits scan.splits)
next
  case False
  obtain s1 where s1: "gate_off st = (True, s1)"
    using gate_off_disabled [OF False] by simp
  then have "trace s1 = trace st @ (if tsafe_inited st = 0 then [] else [Read_flag])"
    using gate_off_trace [of st] by simp
  from forward_locked_writes [OF this gate_off_locked_writes] s1 show ?thesis
    by (simp add: getenv_def)
qed

lemma pthread_create_locked_writes:
  assumes "\<not> mutex_held st"
  shows "locked_writes False (emitted st (pthread_create cfg args st))"
proof -
  let ?pre = "if tsafe_inited st \<noteq> 0 then
          (let s1 = log Read_flag st in
           if tsafe_disabled s1 \<noteq> 0 then qb_tsafe_on s1 else Returns Void s1)
        else Returns Void st"
  obtain s es where pre: "?pre = Returns Void s" and tr: "trace s = trace st @ es"
    and lw: "locked_writes False es"
    using assms
    by (cases "tsafe_inited st = 0"; cases "tsafe_disabled st = 0")
      (simp_all add: qb_tsafe_on_def tsafe_lock_def tsafe_unlock_def Let_def)
  have "pthread_create cfg args st =
      call_real ''pthread_create'' args (resolve_once cfg ''pthread_create'' s)"
    unfolding pthread_create_def pre by simp
  with forward_locked_writes [OF tr lw] show ?thesis by simp
qed


text \<open>
  C8, amended. From a state in which the lock is free: every access to the flag made
  by \<^verbatim>\<open>qb_tsafe_on\<close>, by \<^verbatim>\<open>qb_tsafe_off\<close> and by the fork handlers (prepare then child,
  prepare then parent) happens with the lock held; and every write of the flag made by
  \<^verbatim>\<open>pthread_create\<close>, by \<^verbatim>\<open>getenv\<close> and by a banned wrapper happens with the lock held
  (only \<^verbatim>\<open>pthread_create\<close> writes, through \<^verbatim>\<open>qb_tsafe_on\<close>).
\<close>

theorem flag_writes_locked:
  assumes "\<not> mutex_held st"
  shows "locked_accesses False (emitted st (qb_tsafe_on st)) \<and>
         locked_accesses False (emitted st (qb_tsafe_off st)) \<and>
         locked_accesses False (emitted st (andthen (atfork_prepare st) atfork_child)) \<and>
         locked_accesses False (emitted st (andthen (atfork_prepare st) atfork_parent)) \<and>
         locked_writes False (emitted st (pthread_create cfg args st)) \<and>
         locked_writes False (emitted st (getenv cfg name st)) \<and>
         locked_writes False (emitted st (banned_call cfg n bargs st))"
proof (intro conjI)
  show "locked_accesses False (emitted st (qb_tsafe_on st))"
    using assms by (simp add: emitted_def qb_tsafe_on_def tsafe_lock_def tsafe_unlock_def)
  show "locked_accesses False (emitted st (qb_tsafe_off st))"
    using assms by (simp add: emitted_def qb_tsafe_off_def tsafe_lock_def tsafe_unlock_def)
  show "locked_accesses False (emitted st (andthen (atfork_prepare st) atfork_child))"
    using assms
    by (simp add: emitted_def atfork_prepare_def atfork_child_def tsafe_lock_def
        tsafe_unlock_def Let_def)
  show "locked_accesses False (emitted st (andthen (atfork_prepare st) atfork_parent))"
    using assms
    by (simp add: emitted_def atfork_prepare_def atfork_parent_def tsafe_lock_def
        tsafe_unlock_def)
  show "locked_writes False (emitted st (pthread_create cfg args st))"
    using assms by (rule pthread_create_locked_writes)
  show "locked_writes False (emitted st (getenv cfg name st))"
    by (rule getenv_locked_writes)
  show "locked_writes False (emitted st (banned_call cfg n bargs st))"
    by (rule banned_locked_writes)
qed

theorem flag_writes_locked_witness:
  "\<not> mutex_held disabled_proc \<and>
   emitted disabled_proc (qb_tsafe_on disabled_proc) = [Lock, Write_flag 0, Unlock] \<and>
   locked_accesses False (emitted disabled_proc (qb_tsafe_on disabled_proc)) \<and>
   locked_writes False
     (emitted disabled_proc (pthread_create linux_cfg [Obj 1, Null, Obj 2, Null] disabled_proc))"
proof -
  have free: "\<not> mutex_held disabled_proc"
    by (simp add: disabled_proc_def)
  have ev: "emitted disabled_proc (qb_tsafe_on disabled_proc) = [Lock, Write_flag 0, Unlock]"
    by (simp add: emitted_def model_defs example_defs)
  from flag_writes_locked [OF free, of linux_cfg "[Obj 1, Null, Obj 2, Null]"] free ev
  show ?thesis by simp
qed

subsection \<open>C4: the thread-spawn trigger\<close>

text \<open>
  C4, as stated, fails before initialisation. In a process that has not called
  \<^verbatim>\<open>qb_tsafe_init\<close> the gate is disabled, and it is still disabled after a call of
  \<^verbatim>\<open>pthread_create\<close>: the test \<^verbatim>\<open>tsafe_inited && tsafe_disabled\<close> is false, and
  \<^verbatim>\<open>qb_tsafe_on\<close> is not called. The real \<^verbatim>\<open>pthread_create\<close> is called all the same.
\<close>

theorem pthread_create_before_init:
  "\<not> gate_enabled fresh_proc \<and>
   pthread_create linux_cfg [Obj 1, Null, Obj 2, Null] fresh_proc =
     Returns (Num 4)
       (fresh_proc\<lparr>real_ptr := (\<lambda>n. None)(''pthread_create'' := Some count_args),
          trace := [Resolve ''pthread_create'',
            Call_real ''pthread_create'' [Obj 1, Null, Obj 2, Null]]\<rparr>) \<and>
   \<not> gate_enabled
       (state_of (pthread_create linux_cfg [Obj 1, Null, Obj 2, Null] fresh_proc))"
  by (simp add: model_defs example_defs)

lemma pthread_create_resolved:
  assumes "\<not> mutex_held st"
    and "real_ptr (resolve_once cfg ''pthread_create'' st) ''pthread_create'' = Some f"
  shows "\<exists>st1. pthread_create cfg args st = Returns (fst (f args (world st))) st1 \<and>
           world st1 = snd (f args (world st)) \<and>
           real_ptr st1 ''pthread_create'' = Some f \<and>
           \<not> mutex_held st1 \<and>
           tsafe_inited st1 = tsafe_inited st \<and>
           tsafe_disabled st1 = (if tsafe_inited st \<noteq> 0 then 0 else tsafe_disabled st) \<and>
           list_ex (\<lambda>e. e = Call_real ''pthread_create'' args) (emitted st (pthread_create cfg args st))"
proof -
  let ?pre = "if tsafe_inited st \<noteq> 0 then
          (let s1 = log Read_flag st in
           if tsafe_disabled s1 \<noteq> 0 then qb_tsafe_on s1 else Returns Void s1)
        else Returns Void st"
  obtain s es where pre: "?pre = Returns Void s"
    and same: "real_ptr s = real_ptr st" "world s = world st" "\<not> mutex_held s"
      "tsafe_inited s = tsafe_inited st"
      "tsafe_disabled s = (if tsafe_inited st \<noteq> 0 then 0 else tsafe_disabled st)"
      "trace s = trace st @ es"
    using assms(1)
    by (cases "tsafe_inited st = 0"; cases "tsafe_disabled st = 0")
      (simp_all add: qb_tsafe_on_def tsafe_lock_def tsafe_unlock_def Let_def)
  have eq: "pthread_create cfg args st =
      call_real ''pthread_create'' args (resolve_once cfg ''pthread_create'' s)"
    unfolding pthread_create_def pre by simp
  have ptr: "real_ptr (resolve_once cfg ''pthread_create'' s) ''pthread_create'' = Some f"
    using assms(2) same(1) by (simp add: resolve_once_ptr)
  have tr: "\<exists>es'. trace (resolve_once cfg ''pthread_create'' s) = trace st @ es'"
    using same(6) by (simp add: resolve_once_def get_real_func_def split: option.splits)
  then obtain es' where es': "trace (resolve_once cfg ''pthread_create'' s) = trace st @ es'"
    by blast
  show ?thesis
    unfolding eq
    using ptr same es'
    by (simp add: call_real_def resolve_once_fields emitted_def split: prod.splits)
qed


lemma pthread_create_enabled:
  assumes "gate_enabled s" and "real_ptr s ''pthread_create'' = Some f"
  shows "pthread_create cfg a s =
           Returns (fst (f a (world s)))
             (s\<lparr>world := snd (f a (world s)),
                trace := trace s @ [Read_flag, Call_real ''pthread_create'' a]\<rparr>)"
  using assms
  by (simp add: pthread_create_def gate_enabled_def Let_def call_real_def resolve_once_def
      log_def split: prod.splits)

lemma run_pthread_create_enabled:
  assumes "gate_enabled s" and "real_ptr s ''pthread_create'' = Some f"
  shows "\<exists>s2. run cfg (map Call_pthread_create argss) s = Returns Void s2 \<and>
           gate_enabled s2 \<and> real_ptr s2 = real_ptr s \<and> mutex_held s2 = mutex_held s \<and>
           trace s2 = trace s @
             concat (map (\<lambda>a. [Read_flag, Call_real ''pthread_create'' a]) argss)"
  using assms
proof (induction argss arbitrary: s)
  case Nil
  then show ?case by simp
next
  case (Cons a argss)
  let ?s1 = "s\<lparr>world := snd (f a (world s)),
    trace := trace s @ [Read_flag, Call_real ''pthread_create'' a]\<rparr>"
  have step: "pthread_create cfg a s = Returns (fst (f a (world s))) ?s1"
    using Cons.prems by (rule pthread_create_enabled)
  have "gate_enabled ?s1" and "real_ptr ?s1 ''pthread_create'' = Some f"
    using Cons.prems by (simp_all add: gate_enabled_def)
  from Cons.IH [OF this] obtain s2 where
    "run cfg (map Call_pthread_create argss) ?s1 = Returns Void s2"
    "gate_enabled s2" "real_ptr s2 = real_ptr ?s1" "mutex_held s2 = mutex_held ?s1"
    "trace s2 = trace ?s1 @
       concat (map (\<lambda>a. [Read_flag, Call_real ''pthread_create'' a]) argss)"
    by blast
  with step show ?case by simp
qed

lemma qb_tsafe_off_disables:
  "\<not> mutex_held s \<Longrightarrow>
   \<exists>s3. qb_tsafe_off s = Returns Void s3 \<and> \<not> gate_enabled s3 \<and> tsafe_disabled s3 = 1"
  by (simp add: qb_tsafe_off_def tsafe_lock_def tsafe_unlock_def gate_enabled_def)

text \<open>
  C4, amended. From a state in which the lock is free and \<^verbatim>\<open>pthread_create\<close> resolves
  to \<open>f\<close> (the static pointer is \<open>f\<close>, or it is null and the resolver finds \<open>f\<close>), a
  call of \<^verbatim>\<open>pthread_create\<close> calls \<open>f\<close> with its arguments and returns its result,
  whatever the two flags are. If moreover \<^verbatim>\<open>tsafe_inited\<close> is set, the gate is enabled
  after the call; after any sequence of further calls of \<^verbatim>\<open>pthread_create\<close>, each of
  which reads the flag and calls \<open>f\<close>, it is still enabled; and \<^verbatim>\<open>qb_tsafe_off\<close> then
  disables it.
\<close>

theorem pthread_create_enables_gate:
  assumes "\<not> mutex_held st"
    and "real_ptr (resolve_once cfg ''pthread_create'' st) ''pthread_create'' = Some f"
  shows "\<exists>st1. pthread_create cfg args st = Returns (fst (f args (world st))) st1 \<and>
           world st1 = snd (f args (world st)) \<and>
           (tsafe_inited st \<noteq> 0 \<longrightarrow>
              gate_enabled st1 \<and>
              (\<forall>argss. \<exists>st2.
                 run cfg (map Call_pthread_create argss) st1 = Returns Void st2 \<and>
                 gate_enabled st2 \<and>
                 emitted st1 (run cfg (map Call_pthread_create argss) st1) =
                   concat (map (\<lambda>a. [Read_flag, Call_real ''pthread_create'' a]) argss) \<and>
                 (\<exists>st3. qb_tsafe_off st2 = Returns Void st3 \<and> \<not> gate_enabled st3)))"
proof -
  from pthread_create_resolved [OF assms, of args] obtain st1 where
    st1: "pthread_create cfg args st = Returns (fst (f args (world st))) st1"
      "world st1 = snd (f args (world st))"
      "real_ptr st1 ''pthread_create'' = Some f"
      "\<not> mutex_held st1"
      "tsafe_inited st1 = tsafe_inited st"
      "tsafe_disabled st1 = (if tsafe_inited st \<noteq> 0 then 0 else tsafe_disabled st)"
    by blast
  have "gate_enabled st1 \<and>
      (\<forall>argss. \<exists>st2.
         run cfg (map Call_pthread_create argss) st1 = Returns Void st2 \<and>
         gate_enabled st2 \<and>
         emitted st1 (run cfg (map Call_pthread_create argss) st1) =
           concat (map (\<lambda>a. [Read_flag, Call_real ''pthread_create'' a]) argss) \<and>
         (\<exists>st3. qb_tsafe_off st2 = Returns Void st3 \<and> \<not> gate_enabled st3))"
    if ini: "tsafe_inited st \<noteq> 0"
  proof
    show en: "gate_enabled st1"
      using ini st1(5,6) by (simp add: gate_enabled_def)
    show "\<forall>argss. \<exists>st2.
         run cfg (map Call_pthread_create argss) st1 = Returns Void st2 \<and>
         gate_enabled st2 \<and>
         emitted st1 (run cfg (map Call_pthread_create argss) st1) =
           concat (map (\<lambda>a. [Read_flag, Call_real ''pthread_create'' a]) argss) \<and>
         (\<exists>st3. qb_tsafe_off st2 = Returns Void st3 \<and> \<not> gate_enabled st3)"
    proof
      fix argss
      from run_pthread_create_enabled [OF en st1(3), of cfg argss] obtain st2 where
        st2: "run cfg (map Call_pthread_create argss) st1 = Returns Void st2"
          "gate_enabled st2" "mutex_held st2 = mutex_held st1"
          "trace st2 = trace st1 @
             concat (map (\<lambda>a. [Read_flag, Call_real ''pthread_create'' a]) argss)"
        by blast
      from st2(3) st1(4) have "\<not> mutex_held st2" by simp
      from qb_tsafe_off_disables [OF this] st2 show "\<exists>st2.
         run cfg (map Call_pthread_create argss) st1 = Returns Void st2 \<and>
         gate_enabled st2 \<and>
         emitted st1 (run cfg (map Call_pthread_create argss) st1) =
           concat (map (\<lambda>a. [Read_flag, Call_real ''pthread_create'' a]) argss) \<and>
         (\<exists>st3. qb_tsafe_off st2 = Returns Void st3 \<and> \<not> gate_enabled st3)"
        by (auto simp: emitted_def)
    qed
  qed
  with st1(1,2) show ?thesis by blast
qed

theorem pthread_create_enables_gate_witness:
  "\<not> mutex_held disabled_proc \<and> tsafe_inited disabled_proc \<noteq> 0 \<and>
   \<not> gate_enabled disabled_proc \<and>
   real_ptr (resolve_once linux_cfg ''pthread_create'' disabled_proc) ''pthread_create'' =
     Some count_args \<and>
   gate_enabled (state_of (pthread_create linux_cfg [Obj 1, Null, Obj 2, Null] disabled_proc)) \<and>
   (\<exists>st1. pthread_create linux_cfg [Obj 1, Null, Obj 2, Null] disabled_proc =
            Returns (Num 4) st1 \<and>
          (\<exists>st2. run linux_cfg
                   (map Call_pthread_create [[Obj 3, Null, Obj 2, Null], [Obj 4, Null, Obj 2, Null]])
                   st1 = Returns Void st2 \<and>
                 gate_enabled st2 \<and>
                 (\<exists>st3. qb_tsafe_off st2 = Returns Void st3 \<and> \<not> gate_enabled st3)))"
proof -
  have free: "\<not> mutex_held disabled_proc" and ini: "tsafe_inited disabled_proc \<noteq> 0"
    and dis: "\<not> gate_enabled disabled_proc"
    by (simp_all add: disabled_proc_def gate_enabled_def)
  have ptr: "real_ptr (resolve_once linux_cfg ''pthread_create'' disabled_proc)
      ''pthread_create'' = Some count_args"
    by (simp add: model_defs example_defs)
  have res: "fst (count_args [Obj 1, Null, Obj 2, Null] (world disabled_proc)) = Num 4"
    by (simp add: count_args_def)
  from pthread_create_enables_gate [OF free ptr, of "[Obj 1, Null, Obj 2, Null]"] ini res
  obtain st1 where st1:
    "pthread_create linux_cfg [Obj 1, Null, Obj 2, Null] disabled_proc = Returns (Num 4) st1"
    "gate_enabled st1"
    "\<forall>argss. \<exists>st2.
       run linux_cfg (map Call_pthread_create argss) st1 = Returns Void st2 \<and>
       gate_enabled st2 \<and>
       emitted st1 (run linux_cfg (map Call_pthread_create argss) st1) =
         concat (map (\<lambda>a. [Read_flag, Call_real ''pthread_create'' a]) argss) \<and>
       (\<exists>st3. qb_tsafe_off st2 = Returns Void st3 \<and> \<not> gate_enabled st3)"
    by auto
  from st1(3) have "\<exists>st2. run linux_cfg
       (map Call_pthread_create [[Obj 3, Null, Obj 2, Null], [Obj 4, Null, Obj 2, Null]])
       st1 = Returns Void st2 \<and>
     gate_enabled st2 \<and>
     (\<exists>st3. qb_tsafe_off st2 = Returns Void st3 \<and> \<not> gate_enabled st3)"
    by blast
  with st1(1,2) free ini dis ptr show ?thesis by auto
qed

subsection \<open>C9: before initialisation\<close>

text \<open>
  C9, as stated, fails for one intercepted entry point. \<^verbatim>\<open>catgets\<close> never forwards: in a
  process that has not called \<^verbatim>\<open>qb_tsafe_init\<close>, on a platform where the real
  \<^verbatim>\<open>catgets\<close> resolves and would return 4, the wrapper returns \<^verbatim>\<open>NULL\<close> and neither
  resolves nor calls anything.
\<close>

theorem catgets_never_forwards:
  "tsafe_inited fresh_proc = 0 \<and>
   dlsym_next linux_cfg ''catgets'' = Some count_args \<and>
   count_args [Obj 1, Num 1, Num 2, Str ''hello''] (world fresh_proc) =
     (Num 4, world fresh_proc) \<and>
   catgets (Obj 1) (Num 1) (Num 2) (Str ''hello'') fresh_proc = Returns Null fresh_proc \<and>
   emitted fresh_proc (catgets (Obj 1) (Num 1) (Num 2) (Str ''hello'') fresh_proc) = [] \<and>
   \<not> list_ex (is_call ''catgets'')
       (emitted fresh_proc (catgets (Obj 1) (Num 1) (Num 2) (Str ''hello'') fresh_proc))"
  by (simp add: emitted_def model_defs example_defs)

lemma gate_off_uninit: "tsafe_inited st = 0 \<Longrightarrow> gate_off st = (True, st)"
  by (simp add: gate_off_def)

lemma emitted_forward:
  "list_ex (is_call n) (emitted st (call_real n a (resolve_once cfg n st)))"
  by (cases "real_ptr st n"; cases "fst (get_real_func cfg n st)")
    (simp_all add: emitted_def call_real_def resolve_once_def get_real_func_def
      split: prod.splits)

lemma emitted_forward_then:
  "list_ex (is_call n)
     (emitted st (andthen (call_real n a (resolve_once cfg n st))
        (\<lambda>s. Aborts (log Assert_failed s))))"
  by (cases "real_ptr st n"; cases "fst (get_real_func cfg n st)")
    (simp_all add: emitted_def call_real_def resolve_once_def get_real_func_def
      split: prod.splits)

text \<open>
  C9, amended. While \<^verbatim>\<open>tsafe_inited\<close> is zero, whatever \<^verbatim>\<open>tsafe_disabled\<close> is:
  \<^verbatim>\<open>getenv\<close> does what its forwarding path does (resolve unless the static pointer is
  set, then call through it) and is not served from the snapshot; every banned wrapper
  calls through its static pointer, null or not;
  every banned wrapper but \<^verbatim>\<open>crypt\<close> and the non-BSD \<^verbatim>\<open>setgrent\<close> does exactly what
  its forwarding path does; and \<^verbatim>\<open>pthread_create\<close> does what its forwarding path does,
  leaving both flags as they were, so the gate stays disabled. \<^verbatim>\<open>catgets\<close> returns
  \<^verbatim>\<open>NULL\<close> and leaves the state as it was.
\<close>

theorem forwards_before_init:
  assumes "tsafe_inited st = 0"
  shows "getenv cfg name st =
           call_real ''getenv'' [Str name] (resolve_once cfg ''getenv'' st) \<and>
         (well_formed n args \<longrightarrow>
            list_ex (is_call n) (emitted st (banned_call cfg n args st))) \<and>
         (well_formed n args \<and> n \<noteq> ''crypt'' \<and> (n \<noteq> ''setgrent'' \<or> qb_bsd cfg) \<longrightarrow>
            banned_call cfg n args st = call_real n args (resolve_once cfg n st)) \<and>
         pthread_create cfg pargs st =
           call_real ''pthread_create'' pargs (resolve_once cfg ''pthread_create'' st) \<and>
         tsafe_disabled (state_of (pthread_create cfg pargs st)) = tsafe_disabled st \<and>
         tsafe_inited (state_of (pthread_create cfg pargs st)) = 0 \<and>
         \<not> gate_enabled (state_of (pthread_create cfg pargs st)) \<and>
         catgets c s m d st = Returns Null st"
proof (intro conjI impI)
  note off = gate_off_uninit [OF assms]
  show "getenv cfg name st =
      call_real ''getenv'' [Str name] (resolve_once cfg ''getenv'' st)"
    by (simp add: getenv_def off)
  show "list_ex (is_call n) (emitted st (banned_call cfg n args st))"
    if "well_formed n args"
    by (simp add: banned_call_def crypt_def setgrent_def forward_or_abort_def off
        emitted_forward emitted_forward_then)
  show "banned_call cfg n args st = call_real n args (resolve_once cfg n st)"
    if "well_formed n args \<and> n \<noteq> ''crypt'' \<and> (n \<noteq> ''setgrent'' \<or> qb_bsd cfg)"
    using that well_formed_setgrent [of args]
    by (auto simp: banned_call_def setgrent_def forward_or_abort_def off)
  show eq: "pthread_create cfg pargs st =
      call_real ''pthread_create'' pargs (resolve_once cfg ''pthread_create'' st)"
    using assms by (simp add: pthread_create_def)
  show "tsafe_disabled (state_of (pthread_create cfg pargs st)) = tsafe_disabled st"
    unfolding eq
    by (simp add: call_real_def resolve_once_fields split: option.splits prod.splits)
  show ini: "tsafe_inited (state_of (pthread_create cfg pargs st)) = 0"
    unfolding eq using assms
    by (simp add: call_real_def resolve_once_fields split: option.splits prod.splits)
  then show "\<not> gate_enabled (state_of (pthread_create cfg pargs st))"
    by (simp add: gate_enabled_def)
  show "catgets c s m d st = Returns Null st"
    by (simp add: catgets_def)
qed

theorem forwards_before_init_witness:
  "tsafe_inited (state_of (qb_tsafe_on fresh_proc)) = 0 \<and>
   tsafe_disabled (state_of (qb_tsafe_on fresh_proc)) = 0 \<and>
   well_formed ''setenv'' [Str ''PATH'', Str ''/sbin'', Num 1] \<and>
   banned_call linux_cfg ''setenv'' [Str ''PATH'', Str ''/sbin'', Num 1]
     (state_of (qb_tsafe_on fresh_proc)) =
     call_real ''setenv'' [Str ''PATH'', Str ''/sbin'', Num 1]
       (resolve_once linux_cfg ''setenv'' (state_of (qb_tsafe_on fresh_proc))) \<and>
   list_ex (is_call ''setenv'')
     (emitted (state_of (qb_tsafe_on fresh_proc))
        (banned_call linux_cfg ''setenv'' [Str ''PATH'', Str ''/sbin'', Num 1]
           (state_of (qb_tsafe_on fresh_proc)))) \<and>
   getenv linux_cfg ''PATH'' (state_of (qb_tsafe_on fresh_proc)) =
     call_real ''getenv'' [Str ''PATH'']
       (resolve_once linux_cfg ''getenv'' (state_of (qb_tsafe_on fresh_proc))) \<and>
   tsafe_disabled (state_of (pthread_create linux_cfg [Obj 1, Null, Obj 2, Null]
     (state_of (qb_tsafe_on fresh_proc)))) = 0 \<and>
   \<not> gate_enabled (state_of (pthread_create linux_cfg [Obj 1, Null, Obj 2, Null]
     (state_of (qb_tsafe_on fresh_proc))))"
proof -
  let ?st = "state_of (qb_tsafe_on fresh_proc)"
  have ini: "tsafe_inited ?st = 0" and dis: "tsafe_disabled ?st = 0"
    by (simp_all add: model_defs example_defs)
  have wf: "well_formed ''setenv'' [Str ''PATH'', Str ''/sbin'', Num 1]"
    by (simp add: well_formed_def banned_def)
  have other: "''setenv'' \<noteq> ''crypt''" "''setenv'' \<noteq> ''setgrent''"
    by simp_all
  note r = forwards_before_init [OF ini, of linux_cfg "''PATH''" "''setenv''"
      "[Str ''PATH'', Str ''/sbin'', Num 1]" "[Obj 1, Null, Obj 2, Null]"]
  from r have g: "getenv linux_cfg ''PATH'' ?st =
      call_real ''getenv'' [Str ''PATH''] (resolve_once linux_cfg ''getenv'' ?st)"
    by (rule conjunct1)
  from r wf have l: "list_ex (is_call ''setenv'')
      (emitted ?st (banned_call linux_cfg ''setenv'' [Str ''PATH'', Str ''/sbin'', Num 1] ?st))"
    by blast
  from r wf other have b: "banned_call linux_cfg ''setenv''
      [Str ''PATH'', Str ''/sbin'', Num 1] ?st =
      call_real ''setenv'' [Str ''PATH'', Str ''/sbin'', Num 1]
        (resolve_once linux_cfg ''setenv'' ?st)"
    by blast
  from r have "tsafe_disabled (state_of (pthread_create linux_cfg
      [Obj 1, Null, Obj 2, Null] ?st)) = tsafe_disabled ?st"
    by blast
  from this dis have d: "tsafe_disabled (state_of (pthread_create linux_cfg
      [Obj 1, Null, Obj 2, Null] ?st)) = 0"
    by (rule trans)
  from r have ng: "\<not> gate_enabled (state_of (pthread_create linux_cfg
      [Obj 1, Null, Obj 2, Null] ?st))"
    by blast
  from ini dis wf b l g d ng show ?thesis
    by (intro conjI)
qed

end
